theory Spec2Isabelle
  imports Main "HOL-Library.Word"
begin

unbundle bit_operations_syntax

section \<open>The binary XACT sound bank loader (sound/xactsoundbank_binary.cpp)\<close>

text \<open>
  The loader reads a seekable stream over an immutable byte buffer. The buffer is a
  parameter \<open>buf\<close> of every function below and the stream's read position is the state
  that is threaded through: a reader takes the position and either throws
  (\<open>Inl\<close>) or returns a value with the new position (\<open>Inr\<close>).
  \<open>size_t\<close> values (positions, loop counters, weights) are natural numbers: the sums
  the loader forms stay far below \<open>2 ^ 64\<close>, so a 64-bit \<open>size_t\<close> never wraps.
  Fields the loader computes in floating point hold the integer that was read, before
  scaling and clamping.
\<close>

type_synonym uint8 = "8 word"
type_synonym uint16 = "16 word"
type_synonym uint32 = "32 word"
type_synonym UString = "8 word list"

datatype error =
    ReadError
  | SeekError
  | NotXSB uint32
  | UnsupportedVersion uint16
  | TrackCountError uint32

type_synonym 'a reader = "nat \<Rightarrow> error + ('a \<times> nat)"

definition bindR :: "'a reader \<Rightarrow> ('a \<Rightarrow> 'b reader) \<Rightarrow> 'b reader" where
  "bindR m f = (\<lambda>p. case m p of Inl e \<Rightarrow> Inl e | Inr (a, p') \<Rightarrow> f a p')"

definition returnR :: "'a \<Rightarrow> 'a reader" where
  "returnR a = (\<lambda>p. Inr (a, p))"

definition throwR :: "error \<Rightarrow> 'a reader" where
  "throwR e = (\<lambda>p. Inl e)"

subsection \<open>The stream (common/readstream.h)\<close>

text \<open>
  Modelled from the spec: \<open>Common::SeekableReadStream\<close>, whose header is not among the
  sources. The spec calls it a seekable, bounds-checked byte source with random-access
  reads, where an offset or size that would read past the buffer end is a failure and is
  never clamped; multi-byte integers are little-endian except the 4-byte tag.
  A seek beyond the end of the buffer throws, and so does a read of more bytes than
  remain.
\<close>

definition u16le :: "uint8 list \<Rightarrow> nat \<Rightarrow> uint16" where
  "u16le buf p = ucast (buf ! p) OR push_bit 8 (ucast (buf ! (p + 1)))"

definition u32le :: "uint8 list \<Rightarrow> nat \<Rightarrow> uint32" where
  "u32le buf p =
     ucast (buf ! p) OR push_bit 8 (ucast (buf ! (p + 1))) OR
     push_bit 16 (ucast (buf ! (p + 2))) OR push_bit 24 (ucast (buf ! (p + 3)))"

definition u32be :: "uint8 list \<Rightarrow> nat \<Rightarrow> uint32" where
  "u32be buf p =
     push_bit 24 (ucast (buf ! p)) OR push_bit 16 (ucast (buf ! (p + 1))) OR
     push_bit 8 (ucast (buf ! (p + 2))) OR ucast (buf ! (p + 3))"

definition seek :: "uint8 list \<Rightarrow> nat \<Rightarrow> unit reader" where
  "seek buf offset = (\<lambda>p. if offset \<le> length buf then Inr ((), offset) else Inl SeekError)"

definition skip :: "uint8 list \<Rightarrow> nat \<Rightarrow> unit reader" where
  "skip buf n = (\<lambda>p. if p + n \<le> length buf then Inr ((), p + n) else Inl SeekError)"

definition pos :: "nat reader" where
  "pos = (\<lambda>p. Inr (p, p))"

definition readByte :: "uint8 list \<Rightarrow> uint8 reader" where
  "readByte buf = (\<lambda>p. if p + 1 \<le> length buf then Inr (buf ! p, p + 1) else Inl ReadError)"

definition readSByte :: "uint8 list \<Rightarrow> int reader" where
  "readSByte buf = (\<lambda>p. if p + 1 \<le> length buf then Inr (sint (buf ! p), p + 1) else Inl ReadError)"

definition readUint16LE :: "uint8 list \<Rightarrow> uint16 reader" where
  "readUint16LE buf = (\<lambda>p. if p + 2 \<le> length buf then Inr (u16le buf p, p + 2) else Inl ReadError)"

definition readSint16LE :: "uint8 list \<Rightarrow> int reader" where
  "readSint16LE buf =
     (\<lambda>p. if p + 2 \<le> length buf then Inr (sint (u16le buf p), p + 2) else Inl ReadError)"

definition readUint32LE :: "uint8 list \<Rightarrow> uint32 reader" where
  "readUint32LE buf = (\<lambda>p. if p + 4 \<le> length buf then Inr (u32le buf p, p + 4) else Inl ReadError)"

definition readUint32BE :: "uint8 list \<Rightarrow> uint32 reader" where
  "readUint32BE buf = (\<lambda>p. if p + 4 \<le> length buf then Inr (u32be buf p, p + 4) else Inl ReadError)"

text \<open>The four bytes of an IEEE float, not interpreted.\<close>

definition readIEEEFloatLE :: "uint8 list \<Rightarrow> uint32 reader" where
  "readIEEEFloatLE buf = readUint32LE buf"

text \<open>
  Modelled from the spec: \<open>Common::readStringFixed\<close> and \<open>Common::readString\<close>
  (common/strutil.h, not among the sources). A fixed-width ASCII field consumes all of
  its bytes and its text ends at the first NUL; a terminated ASCII string is read byte by
  byte up to and including its NUL, and running into the end of the buffer is a failed
  read.
\<close>

definition readStringFixed :: "uint8 list \<Rightarrow> nat \<Rightarrow> UString reader" where
  "readStringFixed buf n =
     (\<lambda>p. if p + n \<le> length buf
          then Inr (takeWhile (\<lambda>b. b \<noteq> 0) (take n (drop p buf)), p + n)
          else Inl ReadError)"

definition readString :: "uint8 list \<Rightarrow> UString reader" where
  "readString buf =
     (\<lambda>p. let s = takeWhile (\<lambda>b. b \<noteq> 0) (drop p buf)
          in if p + length s < length buf then Inr (s, p + length s + 1) else Inl ReadError)"

text \<open>
  Modelled from the spec: the \<open>CLIP\<close> template of common/util.h (not among the sources),
  which clamps a value to a legal range.
\<close>

definition CLIP :: "'a::linorder \<Rightarrow> 'a \<Rightarrow> 'a \<Rightarrow> 'a" where
  "CLIP v amin amax = (if v < amin then amin else if amax < v then amax else v)"

subsection \<open>Constants of sound/xactsoundbank.h\<close>

text \<open>
  The header that declares the weight range, the selection methods and the event types
  is not among the sources, so their values are parameters of the loader.
\<close>

record Consts =
  kWeightMinimum :: nat
  kWeightMaximum :: nat
  kSelectMethodOrdered :: uint8
  kEventTypePlay :: uint8
  kEventTypePlayComplex :: uint8
  kEventTypePitch :: uint8
  kEventTypeVolume :: uint8
  kEventTypeLowPass :: uint8
  kEventTypeLFOMulti :: uint8
  kEventTypeLoop :: uint8
  kEventTypeMarker :: uint8

definition k3DDefinitionSize :: nat where "k3DDefinitionSize = 40"
definition kCueDefinitionSize :: nat where "kCueDefinitionSize = 20"
definition kSoundDefinitionSize :: nat where "kSoundDefinitionSize = 20"
definition kTrackDefinitionSize :: nat where "kTrackDefinitionSize = 4"

definition kXSBNoCueNames :: uint32 where "kXSBNoCueNames = 1"

definition kSound3D :: uint8 where "kSound3D = 0x01"
definition kSoundGainBoost :: uint8 where "kSoundGainBoost = 0x02"
definition kSoundEQ :: uint8 where "kSoundEQ = 0x04"
definition kSoundTrivial :: uint8 where "kSoundTrivial = 0x08"
definition kSoundSimple :: uint8 where "kSoundSimple = 0x10"

definition kPlayEventMultipleVariations :: uint8 where "kPlayEventMultipleVariations = 0x04"

definition kPitchEventVariation :: uint8 where "kPitchEventVariation = 0x04"
definition kPitchEventRelative :: uint8 where "kPitchEventRelative = 0x10"
definition kPitchEventFade :: uint8 where "kPitchEventFade = 0x20"

definition kLowPassEventRandom :: uint8 where "kLowPassEventRandom = 0x04"
definition kLowPassEventRelative :: uint8 where "kLowPassEventRelative = 0x10"
definition kLowPassEventSweep :: uint8 where "kLowPassEventSweep = 0x20"

definition kMarkerEventRepeat :: uint8 where "kMarkerEventRepeat = 0x20"

definition kXSBID :: uint32 where "kXSBID = 0x5344424B"

subsection \<open>The sound bank's data (sound/xactsoundbank.h)\<close>

text \<open>
  The structures keep the names of the loader's fields. A scalar that the loader assigns
  only on some paths is an option: \<open>None\<close> stands for the value the structure's
  constructor gave it, which the sources do not show. The map from a name to a pointer
  into a vector is a map from the name to the element's index.
\<close>

record WaveBank =
  name :: UString

record CueVariation =
  soundIndex :: nat
  weightMin :: nat
  weightMax :: nat

record Cue =
  name :: UString
  variationSelectMethod :: "uint8 option"
  variations :: "CueVariation list"

record WaveVariation =
  index :: nat
  bank :: UString
  weightMin :: nat
  weightMax :: nat

datatype EventParams =
    ParamsUnset
  | ParamsPitch uint16 bool bool bool "(int \<times> int \<times> nat) option"
  | ParamsVolume uint16 bool bool bool "(int \<times> int \<times> nat) option"
  | ParamsLowPass bool bool bool uint16 "(uint16 \<times> uint16 \<times> nat \<times> int \<times> int) option"
  | ParamsLFOMulti "(uint8 \<times> int \<times> int \<times> int) option"
  | ParamsLoop uint16
  | ParamsMarker bool uint16 "(uint32 \<times> nat) option"

record Event =
  type :: uint8
  timestamp :: "nat option"
  params :: EventParams

record Track =
  variationSelectMethod :: "uint8 option"
  waves :: "WaveVariation list"
  events :: "Event list"

record Sound3DParams =
  volumeLFE :: uint16
  volumeI3DL2 :: uint8
  coneInsideAngle :: uint16
  coneOutsideAngle :: uint16
  coneOutsideVolume :: int
  distanceMin :: uint32
  distanceMax :: uint32
  distanceFactor :: uint32
  rollOffFactor :: uint32
  dopplerFactor :: uint32
  mode :: uint8
  rollOffCurve :: "uint8 list"

record Sound =
  volume :: uint16
  pitch :: int
  layer :: uint8
  categoryIndex :: uint8
  priority :: uint8
  parametricEQ :: bool
  parametricEQGain :: int
  parametricEQQ :: uint16
  parametricEQFreq :: uint16
  gainBoost :: bool
  is3D :: bool
  params3D :: "Sound3DParams option"
  tracks :: "Track list"
  pitchVariationMin :: "int option"
  pitchVariationMax :: "int option"
  volumeVariationMin :: "int option"
  volumeVariationMax :: "int option"
  delay :: "uint16 option"

record SoundBank =
  name :: UString
  waveBanks :: "WaveBank list"
  waveBankMap :: "UString \<rightharpoonup> nat"
  cues :: "Cue list"
  cueMap :: "UString \<rightharpoonup> nat"
  sounds :: "Sound list"

text \<open>Freshly constructed values: strings and vectors are empty.\<close>

definition newWaveBank :: WaveBank where
  "newWaveBank = \<lparr>WaveBank.name = []\<rparr>"

definition newCueVariation :: CueVariation where
  "newCueVariation = \<lparr>soundIndex = 0, CueVariation.weightMin = 0, CueVariation.weightMax = 0\<rparr>"

definition newCue :: Cue where
  "newCue = \<lparr>Cue.name = [], Cue.variationSelectMethod = None, variations = []\<rparr>"

definition newWaveVariation :: WaveVariation where
  "newWaveVariation =
     \<lparr>index = 0, bank = [], WaveVariation.weightMin = 0, WaveVariation.weightMax = 0\<rparr>"

definition newEvent :: "uint8 \<Rightarrow> Event" where
  "newEvent t = \<lparr>type = t, timestamp = None, params = ParamsUnset\<rparr>"

definition newTrack :: Track where
  "newTrack = \<lparr>Track.variationSelectMethod = None, waves = [], events = []\<rparr>"

definition newSound :: Sound where
  "newSound =
     \<lparr>volume = 0, pitch = 0, layer = 0, categoryIndex = 0, priority = 0,
      parametricEQ = False, parametricEQGain = 0, parametricEQQ = 0, parametricEQFreq = 0,
      gainBoost = False, is3D = False, params3D = None, tracks = [],
      pitchVariationMin = None, pitchVariationMax = None,
      volumeVariationMin = None, volumeVariationMax = None, delay = None\<rparr>"

definition newSoundBank :: SoundBank where
  "newSoundBank =
     \<lparr>SoundBank.name = [], waveBanks = [], waveBankMap = Map.empty,
      cues = [], cueMap = Map.empty, sounds = []\<rparr>"

text \<open>\<open>std::vector::resize\<close>, with the value a new element is constructed with.\<close>

definition resize :: "'a \<Rightarrow> nat \<Rightarrow> 'a list \<Rightarrow> 'a list" where
  "resize d n xs = take n xs @ replicate (n - length xs) d"

text \<open>An assignment through \<open>back()\<close>, the last element of a vector.\<close>

definition modifyBack :: "('a \<Rightarrow> 'a) \<Rightarrow> 'a list \<Rightarrow> 'a list" where
  "modifyBack f xs = (if xs = [] then [] else butlast xs @ [f (last xs)])"

text \<open>A counting loop \<open>for (i = ...; i < n; ++i)\<close> over a state, stopped by a throw.\<close>

primrec loopR :: "(nat \<Rightarrow> 's \<Rightarrow> 's reader) \<Rightarrow> nat list \<Rightarrow> 's \<Rightarrow> 's reader" where
  "loopR body [] s = returnR s"
| "loopR body (i # js) s = bindR (body i s) (loopR body js)"

text \<open>Three \<open>readByte\<close> calls summed with shifts 0, 8 and 16.\<close>

definition read24 :: "uint8 list \<Rightarrow> nat reader" where
  "read24 buf =
     bindR (readByte buf) (\<lambda>b0.
     bindR (readByte buf) (\<lambda>b1.
     bindR (readByte buf) (\<lambda>b2.
       returnR (unat b0 + unat b1 * 2 ^ 8 + unat b2 * 2 ^ 16))))"

subsection \<open>Variation lists\<close>

text \<open>The values \<open>readVariationData\<close> extracts from the packed word, in the order of its
  reference parameters: count, current, selectMethod, flags.\<close>

definition variationFields :: "uint32 \<Rightarrow> uint16 \<times> uint16 \<times> uint8 \<times> uint8" where
  "variationFields variationData =
     (ucast (variationData AND 0x1FFF),
      ucast (drop_bit 17 variationData AND 0x1FFF),
      ucast (drop_bit 13 variationData AND 0x000F),
      ucast (drop_bit 30 variationData))"

definition readVariationData :: "uint8 list \<Rightarrow> (uint16 \<times> uint16 \<times> uint8 \<times> uint8) reader" where
  "readVariationData buf =
     bindR (readUint32LE buf) (\<lambda>variationData. returnR (variationFields variationData))"

definition readCueVariation :: "Consts \<Rightarrow> uint8 list \<Rightarrow> CueVariation \<Rightarrow> CueVariation reader" where
  "readCueVariation C buf variation =
     bindR (readUint16LE buf) (\<lambda>si.
     bindR (skip buf 2) (\<lambda>_.
     bindR (readUint16LE buf) (\<lambda>w1.
     bindR (readUint16LE buf) (\<lambda>w2.
       let wmin = CLIP (unat w1) (kWeightMinimum C) (kWeightMaximum C);
           wmax = CLIP (unat w2) (kWeightMinimum C) (kWeightMaximum C)
       in returnR
            (if wmax < wmin
             then variation\<lparr>soundIndex := unat si,
                    CueVariation.weightMin := wmax, CueVariation.weightMax := wmin\<rparr>
             else variation\<lparr>soundIndex := unat si,
                    CueVariation.weightMin := wmin, CueVariation.weightMax := wmax\<rparr>)))))"

text \<open>The iterator loop over the resized vector of variations.\<close>

primrec readCueVariationList ::
  "Consts \<Rightarrow> uint8 list \<Rightarrow> CueVariation list \<Rightarrow> CueVariation list reader" where
  "readCueVariationList C buf [] = returnR []"
| "readCueVariationList C buf (v # vs) =
     bindR (readCueVariation C buf v) (\<lambda>v'.
     bindR (readCueVariationList C buf vs) (\<lambda>vs'. returnR (v' # vs')))"

definition readCueVarations :: "Consts \<Rightarrow> uint8 list \<Rightarrow> Cue \<Rightarrow> uint32 \<Rightarrow> Cue reader" where
  "readCueVarations C buf cue offset =
     bindR (seek buf (unat offset)) (\<lambda>_.
     bindR (readVariationData buf) (\<lambda>(variationCount, currentVariation, selectMethod, flags).
     bindR (readCueVariationList C buf
              (resize newCueVariation (unat variationCount) (variations cue))) (\<lambda>vs.
       returnR (cue\<lparr>Cue.variationSelectMethod := Some selectMethod, variations := vs\<rparr>))))"

definition addWaveVariation ::
  "Consts \<Rightarrow> WaveBank list \<Rightarrow> Track \<Rightarrow> uint32 \<Rightarrow> uint32 \<Rightarrow> uint32 \<Rightarrow> Track" where
  "addWaveVariation C banks track indices weightMinimum weightMaximum =
     (let bankIndex = drop_bit 16 indices;
          soundIndex = indices AND 0xFFFF;
          wave0 = newWaveVariation\<lparr>index := unat soundIndex\<rparr>;
          wave1 = (if unat bankIndex < length banks
                   then wave0\<lparr>bank := WaveBank.name (banks ! unat bankIndex)\<rparr>
                   else wave0);
          wmin = CLIP (unat weightMinimum) (kWeightMinimum C) (kWeightMaximum C);
          wmax = CLIP (unat weightMaximum) (kWeightMinimum C) (kWeightMaximum C);
          wave2 = (if wmax < wmin
                   then wave1\<lparr>WaveVariation.weightMin := wmax, WaveVariation.weightMax := wmin\<rparr>
                   else wave1\<lparr>WaveVariation.weightMin := wmin, WaveVariation.weightMax := wmax\<rparr>)
      in track\<lparr>waves := waves track @ [wave2]\<rparr>)"

definition readWaveVariation :: "Consts \<Rightarrow> uint8 list \<Rightarrow> WaveBank list \<Rightarrow> Track \<Rightarrow> Track reader" where
  "readWaveVariation C buf banks track =
     bindR (readUint32LE buf) (\<lambda>indices.
     bindR (readUint16LE buf) (\<lambda>w1.
     bindR (readUint16LE buf) (\<lambda>w2.
       returnR (addWaveVariation C banks track indices (ucast w1) (ucast w2)))))"

definition readWaveVariations ::
  "Consts \<Rightarrow> uint8 list \<Rightarrow> WaveBank list \<Rightarrow> Track \<Rightarrow> uint32 \<Rightarrow> Track reader" where
  "readWaveVariations C buf banks track offset =
     bindR (seek buf (unat offset)) (\<lambda>_.
     bindR (readVariationData buf) (\<lambda>(variationCount, currentVariation, selectMethod, flags).
       loopR (\<lambda>i. readWaveVariation C buf banks) [0..<unat variationCount]
         (track\<lparr>Track.variationSelectMethod := Some selectMethod\<rparr>)))"

subsection \<open>Wave banks and cues\<close>

definition readWaveBank :: "uint8 list \<Rightarrow> nat \<Rightarrow> SoundBank \<Rightarrow> SoundBank reader" where
  "readWaveBank buf i sb =
     bindR (readStringFixed buf 16) (\<lambda>nm.
       returnR (sb\<lparr>waveBanks := (waveBanks sb)[i := (waveBanks sb ! i)\<lparr>WaveBank.name := nm\<rparr>],
                   waveBankMap := (waveBankMap sb)(nm \<mapsto> i)\<rparr>))"

definition readWaveBanks :: "uint8 list \<Rightarrow> SoundBank \<Rightarrow> uint32 \<Rightarrow> uint32 \<Rightarrow> SoundBank reader" where
  "readWaveBanks buf sb offset count =
     bindR (seek buf (unat offset)) (\<lambda>_.
       loopR (readWaveBank buf) [0..<unat count]
         (sb\<lparr>waveBanks := resize newWaveBank (unat count) (waveBanks sb)\<rparr>))"

text \<open>The body of the loop of \<open>readCues\<close>, for the cue \<open>_cues[i]\<close>.\<close>

definition readCue ::
  "Consts \<Rightarrow> uint8 list \<Rightarrow> uint32 \<Rightarrow> uint32 \<Rightarrow> nat \<Rightarrow> SoundBank \<Rightarrow> SoundBank reader" where
  "readCue C buf xsbFlags offset i sb =
     bindR (seek buf (unat offset + i * kCueDefinitionSize)) (\<lambda>_.
     bindR (skip buf 2) (\<lambda>_.
     bindR (readUint16LE buf) (\<lambda>si.
     bindR (readUint32LE buf) (\<lambda>offsetName.
     bindR (readUint32LE buf) (\<lambda>offsetEntry.
     bindR (skip buf 4) (\<lambda>_.
     bindR (skip buf 4) (\<lambda>_.
     bindR (if xsbFlags AND kXSBNoCueNames = 0 \<and> offsetName \<noteq> 0xFFFFFFFF
            then bindR (seek buf (unat offsetName)) (\<lambda>_.
                 bindR (readString buf) (\<lambda>nm.
                   returnR (sb\<lparr>cues := (cues sb)[i := (cues sb ! i)\<lparr>Cue.name := nm\<rparr>],
                               cueMap := (cueMap sb)(nm \<mapsto> i)\<rparr>)))
            else returnR sb) (\<lambda>sb1.
       if offsetEntry \<noteq> 0xFFFFFFFF
       then bindR (readCueVarations C buf (cues sb1 ! i) offsetEntry) (\<lambda>cue.
              returnR (sb1\<lparr>cues := (cues sb1)[i := cue]\<rparr>))
       else if si \<noteq> 0xFFFF
       then returnR
              (sb1\<lparr>cues := (cues sb1)[i := (cues sb1 ! i)
                 \<lparr>Cue.variationSelectMethod := Some (kSelectMethodOrdered C),
                  variations :=
                    modifyBack
                      (\<lambda>v. v\<lparr>soundIndex := unat si,
                              CueVariation.weightMin := kWeightMinimum C,
                              CueVariation.weightMax := kWeightMaximum C\<rparr>)
                      (resize newCueVariation 1 (variations (cues sb1 ! i)))\<rparr>]\<rparr>)
       else returnR sb1))))))))"

definition readCues ::
  "Consts \<Rightarrow> uint8 list \<Rightarrow> SoundBank \<Rightarrow> uint32 \<Rightarrow> uint32 \<Rightarrow> uint32 \<Rightarrow> SoundBank reader" where
  "readCues C buf sb xsbFlags offset count =
     loopR (readCue C buf xsbFlags offset) [0..<unat count]
       (sb\<lparr>cues := resize newCue (unat count) (cues sb)\<rparr>)"

subsection \<open>Events of a complex track\<close>

text \<open>
  The loop of \<open>readComplexTrack\<close> carries the deferred offset \<open>wavesOffset\<close>, the track
  and the sound. Each case of the switch is a definition of its own that returns the
  state and what is left of \<open>parameterSize\<close>. The parameters of an event are assigned
  through \<open>track.events.back()\<close>.
\<close>

type_synonym trackState = "uint32 \<times> Track \<times> Sound"

definition setParams :: "EventParams \<Rightarrow> Track \<Rightarrow> Track" where
  "setParams prm track = track\<lparr>events := modifyBack (\<lambda>e. e\<lparr>params := prm\<rparr>) (events track)\<rparr>"

definition eventPlay ::
  "Consts \<Rightarrow> uint8 list \<Rightarrow> WaveBank list \<Rightarrow> uint8 \<Rightarrow> uint8 \<Rightarrow> trackState \<Rightarrow> (trackState \<times> uint8) reader" where
  "eventPlay C buf banks parameterSize eventFlags st =
     (case st of (wavesOffset, track, sound) \<Rightarrow>
     bindR (skip buf 2) (\<lambda>_.
       if 4 \<le> parameterSize
       then bindR (readUint32LE buf) (\<lambda>indicesOrOffset.
            bindR (if 12 \<le> parameterSize - 4
                   then bindR (readSint16LE buf) (\<lambda>pMin.
                        bindR (readSint16LE buf) (\<lambda>pMax.
                        bindR (readSint16LE buf) (\<lambda>vMin.
                        bindR (readSint16LE buf) (\<lambda>vMax.
                        bindR (readUint16LE buf) (\<lambda>dl.
                        bindR (skip buf 2) (\<lambda>_.
                          returnR (sound\<lparr>pitchVariationMin := Some pMin,
                                     pitchVariationMax := Some pMax,
                                     volumeVariationMin := Some vMin,
                                     volumeVariationMax := Some vMax,
                                     delay := Some dl\<rparr>, parameterSize - 4 - 12)))))))
                   else returnR (sound, parameterSize - 4)) (\<lambda>(sound', parameterSize').
              if eventFlags AND kPlayEventMultipleVariations = 0
              then returnR
                     ((wavesOffset,
                       addWaveVariation C banks
                         (track\<lparr>Track.variationSelectMethod := Some (kSelectMethodOrdered C)\<rparr>)
                         indicesOrOffset (of_nat (kWeightMinimum C)) (of_nat (kWeightMaximum C)),
                       sound'), parameterSize')
              else returnR ((indicesOrOffset, track, sound'), parameterSize')))
       else returnR ((wavesOffset, track, sound), parameterSize)))"

definition eventPitch :: "uint8 list \<Rightarrow> uint8 \<Rightarrow> uint8 \<Rightarrow> trackState \<Rightarrow> (trackState \<times> uint8) reader" where
  "eventPitch buf parameterSize eventFlags st =
     (case st of (wavesOffset, track, sound) \<Rightarrow>
     bindR (readUint16LE buf) (\<lambda>fadeStepCount.
       let isRelative = (eventFlags AND kPitchEventRelative \<noteq> 0);
           enableFade = (eventFlags AND kPitchEventFade \<noteq> 0);
           enableVariation = (eventFlags AND kPitchEventVariation \<noteq> 0)
       in if 8 \<le> parameterSize
          then bindR (readSint16LE buf) (\<lambda>pitchStart.
               bindR (readSint16LE buf) (\<lambda>pitchEnd.
               bindR (skip buf 1) (\<lambda>_.
               bindR (read24 buf) (\<lambda>fadeDuration.
                 returnR
                   ((wavesOffset,
                     setParams (ParamsPitch fadeStepCount isRelative enableFade enableVariation
                                  (Some (pitchStart, pitchEnd, fadeDuration))) track,
                     sound), parameterSize - 8)))))
          else returnR
                 ((wavesOffset,
                   setParams (ParamsPitch fadeStepCount isRelative enableFade enableVariation None)
                     track,
                   sound), parameterSize)))"

definition eventVolume :: "uint8 list \<Rightarrow> uint8 \<Rightarrow> uint8 \<Rightarrow> trackState \<Rightarrow> (trackState \<times> uint8) reader" where
  "eventVolume buf parameterSize eventFlags st =
     (case st of (wavesOffset, track, sound) \<Rightarrow>
     bindR (readUint16LE buf) (\<lambda>fadeStepCount.
       let isRelative = (eventFlags AND kPitchEventRelative \<noteq> 0);
           enableFade = (eventFlags AND kPitchEventFade \<noteq> 0);
           enableVariation = (eventFlags AND kPitchEventVariation \<noteq> 0)
       in if 8 \<le> parameterSize
          then bindR (readSint16LE buf) (\<lambda>volumeStart.
               bindR (readSint16LE buf) (\<lambda>volumeEnd.
               bindR (skip buf 1) (\<lambda>_.
               bindR (read24 buf) (\<lambda>fadeDuration.
                 returnR
                   ((wavesOffset,
                     setParams (ParamsVolume fadeStepCount isRelative enableFade enableVariation
                                  (Some (volumeStart, volumeEnd, fadeDuration))) track,
                     sound), parameterSize - 8)))))
          else returnR
                 ((wavesOffset,
                   setParams (ParamsVolume fadeStepCount isRelative enableFade enableVariation None)
                     track,
                   sound), parameterSize)))"

definition eventLowPass :: "uint8 list \<Rightarrow> uint8 \<Rightarrow> uint8 \<Rightarrow> trackState \<Rightarrow> (trackState \<times> uint8) reader" where
  "eventLowPass buf parameterSize eventFlags st =
     (case st of (wavesOffset, track, sound) \<Rightarrow>
     let isRelative = (eventFlags AND kLowPassEventRelative \<noteq> 0);
         random = (eventFlags AND kLowPassEventRandom \<noteq> 0);
         sweepCutOff = (eventFlags AND kLowPassEventSweep \<noteq> 0)
     in bindR (readUint16LE buf) (\<lambda>sweepStepCount.
          if 12 \<le> parameterSize
          then bindR (readUint16LE buf) (\<lambda>c1.
               bindR (readUint16LE buf) (\<lambda>c2.
               bindR (skip buf 1) (\<lambda>_.
               bindR (read24 buf) (\<lambda>sweepDuration.
               bindR (readSint16LE buf) (\<lambda>resonanceStart.
               bindR (readSint16LE buf) (\<lambda>resonanceEnd.
                 returnR
                   ((wavesOffset,
                     setParams (ParamsLowPass isRelative random sweepCutOff sweepStepCount
                                  (Some (CLIP c1 0 8192, CLIP c2 0 8192, sweepDuration,
                                         resonanceStart, resonanceEnd))) track,
                     sound), parameterSize - 12)))))))
          else returnR
                 ((wavesOffset,
                   setParams (ParamsLowPass isRelative random sweepCutOff sweepStepCount None) track,
                   sound), parameterSize)))"

definition eventLFOMulti :: "uint8 list \<Rightarrow> uint8 \<Rightarrow> uint8 \<Rightarrow> trackState \<Rightarrow> (trackState \<times> uint8) reader" where
  "eventLFOMulti buf parameterSize eventFlags st =
     (case st of (wavesOffset, track, sound) \<Rightarrow>
     bindR (skip buf 2) (\<lambda>_.
       if 6 \<le> parameterSize
       then bindR (skip buf 2) (\<lambda>_.
            bindR (readByte buf) (\<lambda>delta.
            bindR (readSByte buf) (\<lambda>lfoPitch.
            bindR (readSByte buf) (\<lambda>filter.
            bindR (readSByte buf) (\<lambda>amplitude.
              returnR
                ((wavesOffset,
                  setParams (ParamsLFOMulti (Some (delta, lfoPitch, filter, amplitude))) track,
                  sound), parameterSize - 6))))))
       else returnR ((wavesOffset, track, sound), parameterSize)))"

definition eventLoop :: "uint8 list \<Rightarrow> uint8 \<Rightarrow> uint8 \<Rightarrow> trackState \<Rightarrow> (trackState \<times> uint8) reader" where
  "eventLoop buf parameterSize eventFlags st =
     (case st of (wavesOffset, track, sound) \<Rightarrow>
     bindR (readUint16LE buf) (\<lambda>cnt.
       returnR ((wavesOffset, setParams (ParamsLoop cnt) track, sound), parameterSize)))"

definition eventMarker :: "uint8 list \<Rightarrow> uint8 \<Rightarrow> uint8 \<Rightarrow> trackState \<Rightarrow> (trackState \<times> uint8) reader" where
  "eventMarker buf parameterSize eventFlags st =
     (case st of (wavesOffset, track, sound) \<Rightarrow>
     let repeat = (eventFlags AND kMarkerEventRepeat \<noteq> 0)
     in bindR (readUint16LE buf) (\<lambda>repeatCount.
          if 8 \<le> parameterSize
          then bindR (readUint32LE buf) (\<lambda>val.
               bindR (skip buf 1) (\<lambda>_.
               bindR (read24 buf) (\<lambda>repeatDuration.
                 returnR
                   ((wavesOffset,
                     setParams (ParamsMarker repeat repeatCount (Some (val, repeatDuration))) track,
                     sound), parameterSize - 8))))
          else returnR
                 ((wavesOffset, setParams (ParamsMarker repeat repeatCount None) track, sound),
                  parameterSize)))"

definition eventDefault :: "uint8 list \<Rightarrow> uint8 \<Rightarrow> uint8 \<Rightarrow> trackState \<Rightarrow> (trackState \<times> uint8) reader" where
  "eventDefault buf parameterSize eventFlags st =
     bindR (skip buf 2) (\<lambda>_. returnR (st, parameterSize))"

text \<open>The switch on \<open>event.type\<close>.\<close>

definition eventSwitch ::
  "Consts \<Rightarrow> uint8 list \<Rightarrow> WaveBank list \<Rightarrow> uint8 \<Rightarrow> uint8 \<Rightarrow> uint8 \<Rightarrow> trackState \<Rightarrow> (trackState \<times> uint8) reader" where
  "eventSwitch C buf banks t parameterSize eventFlags st =
     (if t = kEventTypePlay C \<or> t = kEventTypePlayComplex C
      then eventPlay C buf banks parameterSize eventFlags st
      else if t = kEventTypePitch C then eventPitch buf parameterSize eventFlags st
      else if t = kEventTypeVolume C then eventVolume buf parameterSize eventFlags st
      else if t = kEventTypeLowPass C then eventLowPass buf parameterSize eventFlags st
      else if t = kEventTypeLFOMulti C then eventLFOMulti buf parameterSize eventFlags st
      else if t = kEventTypeLoop C then eventLoop buf parameterSize eventFlags st
      else if t = kEventTypeMarker C then eventMarker buf parameterSize eventFlags st
      else eventDefault buf parameterSize eventFlags st)"

text \<open>The body of the event loop: one event record.\<close>

definition readEvent :: "Consts \<Rightarrow> uint8 list \<Rightarrow> WaveBank list \<Rightarrow> trackState \<Rightarrow> trackState reader" where
  "readEvent C buf banks st =
     (case st of (wavesOffset, track, sound) \<Rightarrow>
     bindR (readByte buf) (\<lambda>t.
     bindR (read24 buf) (\<lambda>ts.
     bindR (readByte buf) (\<lambda>parameterSize.
     bindR (readByte buf) (\<lambda>eventFlags.
     bindR (eventSwitch C buf banks t parameterSize eventFlags
              (wavesOffset,
               track\<lparr>events := events track @ [(newEvent t)\<lparr>timestamp := Some ts\<rparr>]\<rparr>,
               sound)) (\<lambda>(st', parameterSize').
     bindR (skip buf (unat parameterSize')) (\<lambda>_. returnR st')))))))"

definition readComplexTrack ::
  "Consts \<Rightarrow> uint8 list \<Rightarrow> WaveBank list \<Rightarrow> Track \<Rightarrow> Sound \<Rightarrow> (Track \<times> Sound) reader" where
  "readComplexTrack C buf banks track sound =
     bindR (readUint32LE buf) (\<lambda>trackData.
       let eventCount = (ucast (trackData AND 0xFF) :: uint8);
           eventsOffset = drop_bit 8 trackData
       in bindR (seek buf (unat eventsOffset)) (\<lambda>_.
          bindR (loopR (\<lambda>i. readEvent C buf banks) [0..<unat eventCount]
                   (0xFFFFFFFF, track, sound)) (\<lambda>(wavesOffset, track', sound').
            if wavesOffset \<noteq> 0xFFFFFFFF
            then bindR (readWaveVariations C buf banks track' wavesOffset) (\<lambda>track''.
                   returnR (track'', sound'))
            else returnR (track', sound'))))"

subsection \<open>Tracks and sounds\<close>

text \<open>The body of the loop over the tracks of a complex sound. The track is an element of
  \<open>sound.tracks\<close>; \<open>readComplexTrack\<close> changes it and other fields of the sound.\<close>

definition readTrack ::
  "Consts \<Rightarrow> uint8 list \<Rightarrow> WaveBank list \<Rightarrow> uint32 \<Rightarrow> nat \<Rightarrow> Sound \<Rightarrow> Sound reader" where
  "readTrack C buf banks indicesOrOffset i sound =
     bindR (seek buf (unat indicesOrOffset + i * kTrackDefinitionSize)) (\<lambda>_.
     bindR (readComplexTrack C buf banks (tracks sound ! i) sound) (\<lambda>(track, sound').
       returnR (sound'\<lparr>tracks := (tracks sound')[i := track]\<rparr>)))"

definition readTracks ::
  "Consts \<Rightarrow> uint8 list \<Rightarrow> WaveBank list \<Rightarrow> Sound \<Rightarrow> uint32 \<Rightarrow> uint32 \<Rightarrow> uint8 \<Rightarrow> Sound reader" where
  "readTracks C buf banks sound indicesOrOffset count flags =
     (if flags AND (kSoundTrivial OR kSoundSimple) \<noteq> 0 \<and> count \<noteq> 1
      then throwR (TrackCountError count)
      else
        let sound1 = sound\<lparr>tracks := resize newTrack (unat count) (tracks sound)\<rparr>
        in if flags AND kSoundTrivial \<noteq> 0
           then
             let track = addWaveVariation C banks
                   ((tracks sound1 ! 0)\<lparr>Track.variationSelectMethod := Some (kSelectMethodOrdered C)\<rparr>)
                   indicesOrOffset (of_nat (kWeightMinimum C)) (of_nat (kWeightMaximum C))
             in returnR
                  (sound1\<lparr>tracks := (tracks sound1)
                     [0 := track\<lparr>events := events track @ [newEvent (kEventTypePlay C)]\<rparr>]\<rparr>)
           else if flags AND kSoundSimple \<noteq> 0
           then bindR (readWaveVariations C buf banks (tracks sound1 ! 0) indicesOrOffset) (\<lambda>track.
                  returnR
                    (sound1\<lparr>tracks := (tracks sound1)
                       [0 := track\<lparr>events := events track @ [newEvent (kEventTypePlay C)]\<rparr>]\<rparr>))
           else loopR (readTrack C buf banks indicesOrOffset) [0..<unat count] sound1)"

text \<open>The block under \<open>if (sound.is3D)\<close> in \<open>readSounds\<close>.\<close>

definition read3DParams :: "uint8 list \<Rightarrow> uint16 \<Rightarrow> uint8 \<Rightarrow> nat \<Rightarrow> Sound3DParams reader" where
  "read3DParams buf vol volume3D offset =
     bindR (seek buf offset) (\<lambda>_.
     bindR (readUint16LE buf) (\<lambda>a1.
     bindR (readUint16LE buf) (\<lambda>a2.
     bindR (readSint16LE buf) (\<lambda>cov.
     bindR (skip buf 2) (\<lambda>_.
     bindR (readIEEEFloatLE buf) (\<lambda>dMin.
     bindR (readIEEEFloatLE buf) (\<lambda>dMax.
     bindR (readIEEEFloatLE buf) (\<lambda>dFactor.
     bindR (readIEEEFloatLE buf) (\<lambda>rFactor.
     bindR (readIEEEFloatLE buf) (\<lambda>dopFactor.
     bindR (readByte buf) (\<lambda>md.
     bindR (readByte buf) (\<lambda>curveSize.
       let rollOffCurveSize = CLIP (unat curveSize) 0 10
       in bindR (loopR (\<lambda>j curve. bindR (readByte buf) (\<lambda>b. returnR (curve @ [b])))
                   [0..<rollOffCurveSize] []) (\<lambda>curve.
            returnR
              \<lparr>volumeLFE = drop_bit 9 vol AND 0x7F, volumeI3DL2 = volume3D,
               coneInsideAngle = CLIP a1 0 360, coneOutsideAngle = CLIP a2 0 360,
               coneOutsideVolume = cov, distanceMin = dMin, distanceMax = dMax,
               distanceFactor = dFactor, rollOffFactor = rFactor, dopplerFactor = dopFactor,
               mode = md, rollOffCurve = curve\<rparr>)))))))))))))"

text \<open>The body of the loop of \<open>readSounds\<close>, for the sound \<open>_sounds[i]\<close>.\<close>

definition readSound ::
  "Consts \<Rightarrow> uint8 list \<Rightarrow> uint32 \<Rightarrow> uint32 \<Rightarrow> nat \<Rightarrow> SoundBank \<Rightarrow> SoundBank reader" where
  "readSound C buf offset offset3DParams i sb =
     bindR (seek buf (unat offset + i * kSoundDefinitionSize)) (\<lambda>_.
     bindR (readUint32LE buf) (\<lambda>indicesOrOffset.
     bindR (readUint16LE buf) (\<lambda>vol.
     bindR (readSint16LE buf) (\<lambda>pit.
     bindR (readByte buf) (\<lambda>trackCount.
     bindR (readByte buf) (\<lambda>lay.
     bindR (readByte buf) (\<lambda>cat.
     bindR (readByte buf) (\<lambda>soundFlags.
     bindR (readUint16LE buf) (\<lambda>index3DParam.
     bindR (readByte buf) (\<lambda>prio.
     bindR (readByte buf) (\<lambda>volume3D.
     bindR (readSint16LE buf) (\<lambda>eqGain.
     bindR (readUint16LE buf) (\<lambda>eq.
       let sound1 = (sounds sb ! i)
             \<lparr>volume := vol AND 0x1FF, pitch := pit, layer := lay, categoryIndex := cat,
              priority := prio, parametricEQ := (soundFlags AND kSoundEQ \<noteq> 0),
              parametricEQGain := eqGain, parametricEQQ := eq AND 7,
              parametricEQFreq := CLIP (drop_bit 3 eq AND 0x1FFF) 30 8000,
              gainBoost := (soundFlags AND kSoundGainBoost \<noteq> 0),
              is3D := (soundFlags AND kSound3D \<noteq> 0)\<rparr>
       in bindR (if is3D sound1
                 then bindR (read3DParams buf vol volume3D
                               (unat offset3DParams + unat index3DParam * k3DDefinitionSize))
                        (\<lambda>p3. returnR (sound1\<lparr>params3D := Some p3\<rparr>))
                 else returnR sound1) (\<lambda>sound2.
          bindR (readTracks C buf (waveBanks sb) sound2 indicesOrOffset (ucast trackCount) soundFlags)
            (\<lambda>sound3. returnR (sb\<lparr>sounds := (sounds sb)[i := sound3]\<rparr>))))))))))))))))"

definition readSounds ::
  "Consts \<Rightarrow> uint8 list \<Rightarrow> SoundBank \<Rightarrow> uint32 \<Rightarrow> uint32 \<Rightarrow> uint32 \<Rightarrow> SoundBank reader" where
  "readSounds C buf sb offset count offset3DParams =
     loopR (readSound C buf offset offset3DParams) [0..<unat count]
       (sb\<lparr>sounds := resize newSound (unat count) (sounds sb)\<rparr>)"

subsection \<open>The header\<close>

definition load :: "Consts \<Rightarrow> uint8 list \<Rightarrow> SoundBank reader" where
  "load C buf =
     bindR (readUint32BE buf) (\<lambda>id.
       if id \<noteq> kXSBID then throwR (NotXSB id)
       else
     bindR (readUint16LE buf) (\<lambda>version.
       if version \<noteq> 11 then throwR (UnsupportedVersion version)
       else
     bindR (skip buf 2) (\<lambda>_.
     bindR (readUint32LE buf) (\<lambda>offsetWaveBanks.
     bindR (readUint32LE buf) (\<lambda>offset2.
     bindR (readUint32LE buf) (\<lambda>offset3DParams.
     bindR (readUint32LE buf) (\<lambda>offset4.
     bindR (readUint16LE buf) (\<lambda>xsbFlags.
     bindR (readUint16LE buf) (\<lambda>count1.
     bindR (readUint16LE buf) (\<lambda>soundCount.
     bindR (readUint16LE buf) (\<lambda>cueCount.
     bindR (readUint16LE buf) (\<lambda>count4.
     bindR (readUint16LE buf) (\<lambda>bankCount.
     bindR (skip buf 4) (\<lambda>_.
     bindR (readStringFixed buf 16) (\<lambda>nm.
     bindR pos (\<lambda>offsetCues.
       let offsetSounds = offsetCues + unat cueCount * kCueDefinitionSize
       in
     bindR (readWaveBanks buf (newSoundBank\<lparr>SoundBank.name := nm\<rparr>) offsetWaveBanks
              (ucast bankCount)) (\<lambda>sb1.
     bindR (readCues C buf sb1 (ucast xsbFlags) (of_nat offsetCues) (ucast cueCount)) (\<lambda>sb2.
       readSounds C buf sb2 (of_nat offsetSounds) (ucast soundCount) offset3DParams
     ))))))))))))))))))"

text \<open>The constructor: \<open>load\<close> on a stream at its start. A throw leaves no sound bank.\<close>

definition XACTSoundBank_Binary :: "Consts \<Rightarrow> uint8 list \<Rightarrow> error + SoundBank" where
  "XACTSoundBank_Binary C buf =
     (case load C buf 0 of Inl e \<Rightarrow> Inl e | Inr (sb, p) \<Rightarrow> Inr sb)"

subsection \<open>Inputs for the examples\<close>

text \<open>A choice of the constants of the header, and byte buffers, on which the theorems
  below are instantiated.\<close>

definition exampleConsts :: Consts where
  "exampleConsts =
     \<lparr>kWeightMinimum = 0, kWeightMaximum = 255, kSelectMethodOrdered = 0,
      kEventTypePlay = 0, kEventTypePlayComplex = 1, kEventTypePitch = 3,
      kEventTypeVolume = 4, kEventTypeLowPass = 5, kEventTypeLFOMulti = 7,
      kEventTypeLoop = 10, kEventTypeMarker = 11\<rparr>"

definition exampleVariations :: "uint8 list" where
  "exampleVariations = [0x02, 0x60, 0x06, 0x80,  0x07, 0x00, 0x01, 0x00,  0x0A, 0x00, 0x14, 0x00,
                        0x09, 0x00, 0x00, 0x00,  0x1E, 0x00, 0x05, 0x00]"


text \<open>Whether a reader's result is a value rather than a throw.\<close>

definition succeeds :: "error + 'a \<Rightarrow> bool" where
  "succeeds r = (case r of Inl e \<Rightarrow> False | Inr v \<Rightarrow> True)"

subsection \<open>The layout of an event table\<close>

text \<open>
  Vocabulary for the claims about complex tracks, read off \<open>readComplexTrack\<close>: where the
  event records of a table start, which records are Play or PlayComplex events with at
  least 4 parameter bytes, which of those defer a wave-variation table (and its offset),
  and which name their wave directly.
\<close>

fun eventStarts :: "uint8 list \<Rightarrow> nat \<Rightarrow> nat \<Rightarrow> nat list" where
  "eventStarts buf p 0 = []"
| "eventStarts buf p (Suc n) = p # eventStarts buf (p + 8 + unat (buf ! (p + 4))) n"

definition isPlayEvent :: "Consts \<Rightarrow> uint8 list \<Rightarrow> nat \<Rightarrow> bool" where
  "isPlayEvent C buf p =
     ((buf ! p = kEventTypePlay C \<or> buf ! p = kEventTypePlayComplex C) \<and> 4 \<le> buf ! (p + 4))"

definition deferredOffset :: "Consts \<Rightarrow> uint8 list \<Rightarrow> nat \<Rightarrow> uint32 option" where
  "deferredOffset C buf p =
     (if isPlayEvent C buf p \<and> buf ! (p + 5) AND kPlayEventMultipleVariations \<noteq> 0
      then Some (u32le buf (p + 8)) else None)"

definition examplePlayEvent :: "uint8 list" where
  "examplePlayEvent =
     [0x00, 0x01, 0x00, 0x00, 0x06, 0x00,  0x00, 0x00,  0x07, 0x00, 0x00, 0x00,  0xAA, 0xBB,
      0x0A, 0x34, 0x12, 0x00, 0x00, 0x00,  0x03, 0x00,  0x00]"

definition exampleSentinelTrack :: "uint8 list" where
  "exampleSentinelTrack =
     [0x01, 0x04, 0x00, 0x00,
      0x00, 0x00, 0x00, 0x00, 0x04, 0x04,  0x00, 0x00,  0xFF, 0xFF, 0xFF, 0xFF,  0x00]"

definition exampleDeferredTrack :: "uint8 list" where
  "exampleDeferredTrack =
     [0x02, 0x04, 0x00, 0x00,
      0x00, 0x00, 0x00, 0x00, 0x04, 0x04,  0x00, 0x00,  0xFF, 0xFF, 0xFF, 0x7F,
      0x01, 0x01, 0x00, 0x00, 0x04, 0x04,  0x00, 0x00,  0x1C, 0x00, 0x00, 0x00,
      0x02, 0x00, 0x00, 0x00,
      0x07, 0x00, 0x00, 0x00, 0x0A, 0x00, 0x14, 0x00,
      0x09, 0x00, 0x00, 0x00, 0x05, 0x00, 0x1E, 0x00,  0x00]"

definition directPlay :: "Consts \<Rightarrow> uint8 list \<Rightarrow> nat \<Rightarrow> bool" where
  "directPlay C buf p =
     (isPlayEvent C buf p \<and> buf ! (p + 5) AND kPlayEventMultipleVariations = 0)"

subsection \<open>The weight range\<close>

text \<open>The weights of a variation lie in the legal range, in order; and so for all the
  variations of a cue, a track, a sound and a sound bank.\<close>

definition cueVariationOK :: "Consts \<Rightarrow> CueVariation \<Rightarrow> bool" where
  "cueVariationOK C v =
     (kWeightMinimum C \<le> CueVariation.weightMin v \<and>
      CueVariation.weightMin v \<le> CueVariation.weightMax v \<and>
      CueVariation.weightMax v \<le> kWeightMaximum C)"

definition waveVariationOK :: "Consts \<Rightarrow> WaveVariation \<Rightarrow> bool" where
  "waveVariationOK C w =
     (kWeightMinimum C \<le> WaveVariation.weightMin w \<and>
      WaveVariation.weightMin w \<le> WaveVariation.weightMax w \<and>
      WaveVariation.weightMax w \<le> kWeightMaximum C)"

definition cueOK :: "Consts \<Rightarrow> Cue \<Rightarrow> bool" where
  "cueOK C c = list_all (cueVariationOK C) (variations c)"

definition trackOK :: "Consts \<Rightarrow> Track \<Rightarrow> bool" where
  "trackOK C t = list_all (waveVariationOK C) (waves t)"

definition soundOK :: "Consts \<Rightarrow> Sound \<Rightarrow> bool" where
  "soundOK C s = list_all (trackOK C) (tracks s)"

definition weightsOK :: "Consts \<Rightarrow> SoundBank \<Rightarrow> bool" where
  "weightsOK C sb = (list_all (cueOK C) (cues sb) \<and> list_all (soundOK C) (sounds sb))"

definition exampleWeightsBank :: "uint8 list" where
  "exampleWeightsBank =
     [0x53, 0x44, 0x42, 0x4B, 0x0B, 0x00, 0x00, 0x00, 0x38, 0x00, 0x00, 0x00, 0x00, 0x00, 0x00, 0x00,
      0x00, 0x00, 0x00, 0x00, 0x00, 0x00, 0x00, 0x00, 0x00, 0x00, 0x00, 0x00, 0x01, 0x00, 0x01, 0x00,
      0x00, 0x00, 0x00, 0x00, 0x00, 0x00, 0x00, 0x00, 0x57, 0x45, 0x49, 0x47, 0x48, 0x54, 0x53, 0x00,
      0x00, 0x00, 0x00, 0x00, 0x00, 0x00, 0x00, 0x00, 0x00, 0x00, 0xFF, 0xFF, 0xFF, 0xFF, 0xFF, 0xFF,
      0x60, 0x00, 0x00, 0x00, 0x00, 0x00, 0x00, 0x00, 0x00, 0x00, 0x00, 0x00, 0x6C, 0x00, 0x00, 0x00,
      0x00, 0x00, 0x00, 0x00, 0x01, 0x00, 0x00, 0x10, 0x00, 0x00, 0x00, 0x00, 0x00, 0x00, 0x00, 0x00,
      0x01, 0x20, 0x00, 0x00, 0x01, 0x00, 0x00, 0x00, 0x2C, 0x01, 0x0A, 0x00, 0x01, 0x40, 0x00, 0x00,
      0x03, 0x00, 0x01, 0x00, 0x90, 0x01, 0x64, 0x00, 0x00]"

subsection \<open>Wave variations and their records\<close>

text \<open>
  Vocabulary for the claim about the bank names of wave variations. \<open>waveOfIndices\<close>
  relates a wave variation to the indices word it was added from and to the wave banks;
  \<open>tableWaves\<close> relates the variations of a table to its entries; \<open>complexTrackWaves\<close>
  relates the variations of a complex track to the Play events that name a wave and to
  the deferred table; \<open>soundWaves\<close> relates the tracks of a sound to its record.
\<close>

definition waveOfIndices :: "WaveBank list \<Rightarrow> uint32 \<Rightarrow> WaveVariation \<Rightarrow> bool" where
  "waveOfIndices banks indices w =
     (index w = unat (indices AND 0xFFFF) \<and>
      bank w = (if unat (drop_bit 16 indices) < length banks
                then WaveBank.name (banks ! unat (drop_bit 16 indices)) else []))"

definition tableWaves :: "uint8 list \<Rightarrow> WaveBank list \<Rightarrow> uint32 \<Rightarrow> WaveVariation list \<Rightarrow> bool" where
  "tableWaves buf banks offset ws =
     list_all2 (\<lambda>k w. waveOfIndices banks (u32le buf (unat offset + 4 + 8 * k)) w)
       [0..<unat (fst (variationFields (u32le buf (unat offset))))] ws"

definition complexTrackWaves ::
  "Consts \<Rightarrow> uint8 list \<Rightarrow> WaveBank list \<Rightarrow> nat \<Rightarrow> WaveVariation list \<Rightarrow> bool" where
  "complexTrackWaves C buf banks ptr ws =
     (let trackData = u32le buf ptr;
          starts = eventStarts buf (unat (drop_bit 8 trackData))
                     (unat (ucast (trackData AND 0xFF) :: uint8));
          wo = last (0xFFFFFFFF # List.map_filter (deferredOffset C buf) starts);
          direct = filter (directPlay C buf) starts
      in list_all2 (\<lambda>q w. waveOfIndices banks (u32le buf (q + 8)) w)
           direct (take (length direct) ws) \<and>
         (if wo \<noteq> 0xFFFFFFFF then tableWaves buf banks wo (drop (length direct) ws)
          else drop (length direct) ws = []))"

definition soundWaves ::
  "Consts \<Rightarrow> uint8 list \<Rightarrow> WaveBank list \<Rightarrow> uint32 \<Rightarrow> uint32 \<Rightarrow> uint8 \<Rightarrow> Sound \<Rightarrow> bool" where
  "soundWaves C buf banks indicesOrOffset trackCount flags s =
     (if flags AND kSoundTrivial \<noteq> 0
      then trackCount = 1 \<and> length (tracks s) = 1 \<and>
           list_all2 (waveOfIndices banks) [indicesOrOffset] (waves (tracks s ! 0))
      else if flags AND kSoundSimple \<noteq> 0
      then trackCount = 1 \<and> length (tracks s) = 1 \<and>
           tableWaves buf banks indicesOrOffset (waves (tracks s ! 0))
      else length (tracks s) = unat trackCount \<and>
           list_all2 (\<lambda>j t. complexTrackWaves C buf banks
                                (unat indicesOrOffset + j * kTrackDefinitionSize) (waves t))
             [0..<unat trackCount] (tracks s))"

definition exampleWaveBank :: "uint8 list" where
  "exampleWaveBank =
     [0x53, 0x44, 0x42, 0x4B, 0x0B, 0x00, 0x00, 0x00, 0x74, 0x00, 0x00, 0x00, 0x00, 0x00, 0x00, 0x00,
      0x00, 0x00, 0x00, 0x00, 0x00, 0x00, 0x00, 0x00, 0x00, 0x00, 0x00, 0x00, 0x03, 0x00, 0x00, 0x00,
      0x00, 0x00, 0x01, 0x00, 0x00, 0x00, 0x00, 0x00, 0x57, 0x41, 0x56, 0x45, 0x53, 0x00, 0x00, 0x00,
      0x00, 0x00, 0x00, 0x00, 0x00, 0x00, 0x00, 0x00, 0x07, 0x00, 0x00, 0x00, 0x00, 0x00, 0x00, 0x00,
      0x01, 0x00, 0x00, 0x08, 0x00, 0x00, 0x00, 0x00, 0x00, 0x00, 0x00, 0x00, 0x07, 0x00, 0x05, 0x00,
      0x00, 0x00, 0x00, 0x00, 0x01, 0x00, 0x00, 0x08, 0x00, 0x00, 0x00, 0x00, 0x00, 0x00, 0x00, 0x00,
      0x84, 0x00, 0x00, 0x00, 0x00, 0x00, 0x00, 0x00, 0x01, 0x00, 0x00, 0x00, 0x00, 0x00, 0x00, 0x00,
      0x00, 0x00, 0x00, 0x00, 0x41, 0x42, 0x00, 0x00, 0x00, 0x00, 0x00, 0x00, 0x00, 0x00, 0x00, 0x00,
      0x00, 0x00, 0x00, 0x00, 0x02, 0x88, 0x00, 0x00, 0x00, 0x00, 0x00, 0x00, 0x04, 0x00, 0x00, 0x00,
      0x03, 0x00, 0x00, 0x00, 0x01, 0x00, 0x00, 0x00, 0x04, 0x00, 0x00, 0x00, 0x09, 0x00, 0x02, 0x00]"

subsection \<open>Cues and their records\<close>

text \<open>What the record at \<open>r\<close> of the cue table says of a cue that has no variation list,
  and of its name when the bank has no cue names.\<close>

definition cueAsRecord :: "Consts \<Rightarrow> uint8 list \<Rightarrow> uint32 \<Rightarrow> nat \<Rightarrow> Cue \<Rightarrow> bool" where
  "cueAsRecord C buf xsbFlags r c =
     ((u32le buf (r + 8) = 0xFFFFFFFF \<and> u16le buf (r + 2) \<noteq> 0xFFFF \<longrightarrow>
         variations c =
           [\<lparr>soundIndex = unat (u16le buf (r + 2)), CueVariation.weightMin = kWeightMinimum C,
             CueVariation.weightMax = kWeightMaximum C\<rparr>] \<and>
         Cue.variationSelectMethod c = Some (kSelectMethodOrdered C)) \<and>
      (u32le buf (r + 8) = 0xFFFFFFFF \<and> u16le buf (r + 2) = 0xFFFF \<longrightarrow>
         variations c = [] \<and> Cue.variationSelectMethod c = None) \<and>
      (xsbFlags AND kXSBNoCueNames \<noteq> 0 \<longrightarrow> Cue.name c = []))"

definition exampleNoCueNames :: "uint8 list" where
  "exampleNoCueNames =
     [0x53, 0x44, 0x42, 0x4B, 0x0B, 0x00, 0x00, 0x00, 0x4C, 0x00, 0x00, 0x00, 0x00, 0x00, 0x00, 0x00,
      0x00, 0x00, 0x00, 0x00, 0x00, 0x00, 0x00, 0x00, 0x01, 0x00, 0x00, 0x00, 0x00, 0x00, 0x01, 0x00,
      0x00, 0x00, 0x00, 0x00, 0x00, 0x00, 0x00, 0x00, 0x4E, 0x4F, 0x4E, 0x41, 0x4D, 0x45, 0x53, 0x00,
      0x00, 0x00, 0x00, 0x00, 0x00, 0x00, 0x00, 0x00, 0x00, 0x00, 0x05, 0x00, 0x00, 0x10, 0x00, 0x00,
      0xFF, 0xFF, 0xFF, 0xFF, 0x00, 0x00, 0x00, 0x00, 0x00, 0x00, 0x00, 0x00]"

definition exampleDirectCues :: "uint8 list" where
  "exampleDirectCues =
     [0x53, 0x44, 0x42, 0x4B, 0x0B, 0x00, 0x00, 0x00, 0x60, 0x00, 0x00, 0x00, 0x00, 0x00, 0x00, 0x00,
      0x00, 0x00, 0x00, 0x00, 0x00, 0x00, 0x00, 0x00, 0x00, 0x00, 0x00, 0x00, 0x00, 0x00, 0x02, 0x00,
      0x00, 0x00, 0x00, 0x00, 0x00, 0x00, 0x00, 0x00, 0x43, 0x55, 0x45, 0x53, 0x00, 0x00, 0x00, 0x00,
      0x00, 0x00, 0x00, 0x00, 0x00, 0x00, 0x00, 0x00, 0x00, 0x00, 0x05, 0x00, 0xFF, 0xFF, 0xFF, 0xFF,
      0xFF, 0xFF, 0xFF, 0xFF, 0x00, 0x00, 0x00, 0x00, 0x00, 0x00, 0x00, 0x00, 0x00, 0x00, 0xFF, 0xFF,
      0xFF, 0xFF, 0xFF, 0xFF, 0xFF, 0xFF, 0xFF, 0xFF, 0x00, 0x00, 0x00, 0x00, 0x00, 0x00, 0x00, 0x00]"

section \<open>Properties of the readers\<close>

subsection \<open>When a reader returns\<close>

lemma succeeds_iff: "succeeds r = (\<exists>v. r = Inr v)"
  by (cases r) (simp_all add: succeeds_def)

lemma not_succeeds_iff: "(\<not> succeeds r) = (\<exists>e. r = Inl e)"
  by (cases r) (simp_all add: succeeds_def)

lemma bindR_Inr: "(bindR m f p = Inr r) = (\<exists>a p1. m p = Inr (a, p1) \<and> f a p1 = Inr r)"
  by (auto simp: bindR_def split: sum.splits)

lemma bindR_Inl: "(bindR m f p = Inl e) = (m p = Inl e \<or> (\<exists>a p1. m p = Inr (a, p1) \<and> f a p1 = Inl e))"
  by (auto simp: bindR_def split: sum.splits)

lemma returnR_Inr: "(returnR a p = Inr r) = (r = (a, p))"
  by (auto simp: returnR_def)

lemma throwR_Inr: "(throwR e p = Inr r) = False"
  by (simp add: throwR_def)

lemma seek_Inr: "(seek buf off p = Inr r) = (off \<le> length buf \<and> r = ((), off))"
  by (auto simp: seek_def)

lemma skip_Inr: "(skip buf n p = Inr r) = (p + n \<le> length buf \<and> r = ((), p + n))"
  by (auto simp: skip_def)

lemma readByte_Inr: "(readByte buf p = Inr r) = (p + 1 \<le> length buf \<and> r = (buf ! p, p + 1))"
  by (auto simp: readByte_def)

lemma readSByte_Inr: "(readSByte buf p = Inr r) = (p + 1 \<le> length buf \<and> r = (sint (buf ! p), p + 1))"
  by (auto simp: readSByte_def)

lemma readUint16LE_Inr: "(readUint16LE buf p = Inr r) = (p + 2 \<le> length buf \<and> r = (u16le buf p, p + 2))"
  by (auto simp: readUint16LE_def)

lemma readSint16LE_Inr:
  "(readSint16LE buf p = Inr r) = (p + 2 \<le> length buf \<and> r = (sint (u16le buf p), p + 2))"
  by (auto simp: readSint16LE_def)

lemma readUint32LE_Inr: "(readUint32LE buf p = Inr r) = (p + 4 \<le> length buf \<and> r = (u32le buf p, p + 4))"
  by (auto simp: readUint32LE_def)

lemma readUint32BE_Inr: "(readUint32BE buf p = Inr r) = (p + 4 \<le> length buf \<and> r = (u32be buf p, p + 4))"
  by (auto simp: readUint32BE_def)

lemma readIEEEFloatLE_Inr:
  "(readIEEEFloatLE buf p = Inr r) = (p + 4 \<le> length buf \<and> r = (u32le buf p, p + 4))"
  by (simp add: readIEEEFloatLE_def readUint32LE_Inr)

lemma read24_Inr:
  "(read24 buf p = Inr r) =
     (p + 3 \<le> length buf \<and>
      r = (unat (buf ! p) + unat (buf ! (p + 1)) * 2 ^ 8 + unat (buf ! (p + 2)) * 2 ^ 16, p + 3))"
  by (auto simp: read24_def bindR_Inr readByte_Inr returnR_Inr)

lemmas reader_Inr = bindR_Inr returnR_Inr throwR_Inr seek_Inr skip_Inr readByte_Inr readSByte_Inr
  readUint16LE_Inr readSint16LE_Inr readUint32LE_Inr readUint32BE_Inr readIEEEFloatLE_Inr read24_Inr


lemma and_1FFF: "(w::32 word) AND 0x1FFF = take_bit 13 w"
  by (simp add: take_bit_eq_mask mask_eq_exp_minus_1)

lemma and_F: "(w::32 word) AND 0xF = take_bit 4 w"
  by (simp add: take_bit_eq_mask mask_eq_exp_minus_1)

lemma unat_ucast_take_drop:
  "unat (ucast (take_bit k (drop_bit n (w::32 word))) :: 'b::len word)
     = take_bit LENGTH('b) (take_bit k (drop_bit n (unat w)))"
  apply (subst unsigned_ucast_eq)
  apply (subst unsigned_take_bit_eq)
  apply (subst unat_drop_bit_eq)
  apply (rule refl)
  done

lemma unat_flags_field: "unat (ucast (drop_bit 30 (w::32 word)) :: 8 word) = unat w div 2 ^ 30"
proof -
  have b: "unat w < 4294967296"
    using unsigned_less [of w, where 'a = nat] by simp
  have "unat (ucast (drop_bit 30 w) :: 8 word) = take_bit 8 (drop_bit 30 (unat w))"
    apply (subst unsigned_ucast_eq)
    apply (subst unat_drop_bit_eq)
    apply simp
    done
  also have "\<dots> = unat w div 2 ^ 30"
    using b by (simp only: take_bit_eq_mod drop_bit_eq_div) simp
  finally show ?thesis .
qed

lemma unat_current_field:
  "unat (ucast (take_bit 13 (drop_bit 17 (w::32 word))) :: 16 word) = unat w div 2 ^ 17 mod 2 ^ 13"
  apply (subst unat_ucast_take_drop)
  apply (simp only: take_bit_eq_mod drop_bit_eq_div)
  apply simp
  done

lemma unat_select_field:
  "unat (ucast (take_bit 4 (drop_bit 13 (w::32 word))) :: 8 word) = unat w div 2 ^ 13 mod 2 ^ 4"
  apply (subst unat_ucast_take_drop)
  apply (simp only: take_bit_eq_mod drop_bit_eq_div)
  apply simp
  done

lemma unat_count_field: "unat (ucast (take_bit 13 (w::32 word)) :: 16 word) = unat w mod 2 ^ 13"
  using unat_ucast_take_drop [of 13 0 w, where 'b = 16]
  apply (simp only: drop_bit_0 id_apply)
  apply (simp only: take_bit_eq_mod)
  apply simp
  done

lemma variationFields_alt:
  "variationFields w =
     (ucast (take_bit 13 w), ucast (take_bit 13 (drop_bit 17 w)),
      ucast (take_bit 4 (drop_bit 13 w)), ucast (drop_bit 30 w))"
  unfolding variationFields_def and_1FFF and_F by (rule refl)

lemma unat_variationFields:
  "variationFields w = (cnt, cur, sm, fl) \<Longrightarrow>
     unat fl = unat w div 2 ^ 30 \<and> unat cur = unat w div 2 ^ 17 mod 2 ^ 13 \<and>
     unat sm = unat w div 2 ^ 13 mod 2 ^ 4 \<and> unat cnt = unat w mod 2 ^ 13"
  unfolding variationFields_alt
  using unat_flags_field [of w] unat_current_field [of w] unat_select_field [of w]
    unat_count_field [of w]
  by (elim Pair_inject) (simp only:)


lemma loopR_invariant:
  assumes "loopR body js s p = Inr (s', p')" and "I s"
    and "\<And>i s p s' p'. i \<in> set js \<Longrightarrow> I s \<Longrightarrow> body i s p = Inr (s', p') \<Longrightarrow> I s'"
  shows "I s'"
  using assms
proof (induction js arbitrary: s p)
  case Nil
  then show ?case by (simp add: returnR_Inr)
next
  case (Cons i js)
  from Cons.prems(1) obtain s1 p1 where
    b: "body i s p = Inr (s1, p1)" and l: "loopR body js s1 p1 = Inr (s', p')"
    by (auto simp: bindR_Inr)
  have "I s1" using Cons.prems(3) [of i s p s1 p1] Cons.prems(2) b by simp
  show ?case
  proof (rule Cons.IH [OF l \<open>I s1\<close>])
    fix j t q t' q'
    assume "j \<in> set js" "I t" "body j t q = Inr (t', q')"
    then show "I t'" using Cons.prems(3) [of j t q t' q'] by simp
  qed
qed

lemma loopR_count:
  assumes "loopR body js s p = Inr (s', p')" and "I k s"
    and "\<And>i k s p s' p'. I k s \<Longrightarrow> body i s p = Inr (s', p') \<Longrightarrow> I (Suc k) s'"
  shows "I (k + length js) s'"
  using assms
proof (induction js arbitrary: s p k)
  case Nil
  then show ?case by (simp add: returnR_Inr)
next
  case (Cons i js)
  from Cons.prems(1) obtain s1 p1 where
    b: "body i s p = Inr (s1, p1)" and l: "loopR body js s1 p1 = Inr (s', p')"
    by (auto simp: bindR_Inr)
  have "I (Suc k) s1" using Cons.prems(3) [OF Cons.prems(2) b] .
  from Cons.IH [OF l this] Cons.prems(3) show ?case by simp
qed

lemma addWaveVariation_waves:
  "waves (addWaveVariation C banks track indices a b) =
     waves track @ [last (waves (addWaveVariation C banks track indices a b))]"
  by (simp add: addWaveVariation_def Let_def)

lemma addWaveVariation_length:
  "length (waves (addWaveVariation C banks track indices a b)) = Suc (length (waves track))"
  by (simp add: addWaveVariation_def Let_def)

lemma addWaveVariation_select:
  "Track.variationSelectMethod (addWaveVariation C banks track indices a b) =
     Track.variationSelectMethod track"
  by (simp add: addWaveVariation_def Let_def)

lemma addWaveVariation_events:
  "events (addWaveVariation C banks track indices a b) = events track"
  by (simp add: addWaveVariation_def Let_def)

lemma addWaveVariation_bank:
  "bank (last (waves (addWaveVariation C banks track indices a b))) =
     (if unat (drop_bit 16 indices) < length banks
      then WaveBank.name (banks ! unat (drop_bit 16 indices)) else [])"
  by (simp add: addWaveVariation_def Let_def newWaveVariation_def)

lemma numeral_add_pos: "numeral n + (p::nat) = p + numeral n"
  by simp

lemma readWaveVariation_Inr:
  "(readWaveVariation C buf banks track p = Inr r) =
     (p + 8 \<le> length buf \<and>
      r = (addWaveVariation C banks track (u32le buf p)
             (ucast (u16le buf (p + 4))) (ucast (u16le buf (p + 6))), p + 8))"
  by (auto simp: readWaveVariation_def reader_Inr numeral_add_pos)

lemma readCueVariationList_length:
  "readCueVariationList C buf vs p = Inr (vs', p') \<Longrightarrow> length vs' = length vs"
  by (induction vs arbitrary: p vs') (auto simp: reader_Inr)

lemma length_resize: "length (resize d n xs) = n"
  by (simp add: resize_def)

lemma readVariationData_Inr:
  "(readVariationData buf p = Inr r) =
     (p + 4 \<le> length buf \<and> r = (variationFields (u32le buf p), p + 4))"
  by (auto simp: readVariationData_def reader_Inr)

lemma readCueVarations_descriptor:
  assumes "readCueVarations C buf cue offset p = Inr (cue', p')"
  shows "length (variations cue') = unat (fst (variationFields (u32le buf (unat offset))))"
    and "Cue.variationSelectMethod cue' =
           Some (fst (snd (snd (variationFields (u32le buf (unat offset))))))"
  using assms
  by (auto simp: readCueVarations_def reader_Inr readVariationData_Inr length_resize
      dest!: readCueVariationList_length split: prod.splits)

lemma readWaveVariations_descriptor:
  assumes "readWaveVariations C buf banks track offset p = Inr (track', p')"
  shows "length (waves track') =
           length (waves track) + unat (fst (variationFields (u32le buf (unat offset))))"
    and "Track.variationSelectMethod track' =
           Some (fst (snd (snd (variationFields (u32le buf (unat offset))))))"
proof -
  obtain cnt cur sm fl where vf: "variationFields (u32le buf (unat offset)) = (cnt, cur, sm, fl)"
    by (cases "variationFields (u32le buf (unat offset))") auto
  from assms vf obtain p1 where
    l: "loopR (\<lambda>i. readWaveVariation C buf banks) [0..<unat cnt]
          (track\<lparr>Track.variationSelectMethod := Some sm\<rparr>) p1 = Inr (track', p')"
    by (auto simp: readWaveVariations_def reader_Inr readVariationData_Inr)
  have "length (waves track') = length (waves track) + (0 + length [0..<unat cnt])
          \<and> Track.variationSelectMethod track' = Some sm"
  proof (rule loopR_count [OF l, where k = 0 and I = "\<lambda>k t. length (waves t) = length (waves track) + k
            \<and> Track.variationSelectMethod t = Some sm"])
    show "length (waves (track\<lparr>Track.variationSelectMethod := Some sm\<rparr>)) = length (waves track) + 0 \<and>
      Track.variationSelectMethod (track\<lparr>Track.variationSelectMethod := Some sm\<rparr>) = Some sm"
      by simp
  next
    fix i k s p s' p'
    assume "length (waves s) = length (waves track) + k \<and> Track.variationSelectMethod s = Some sm"
      and "readWaveVariation C buf banks s p = Inr (s', p')"
    then show "length (waves s') = length (waves track) + Suc k \<and> Track.variationSelectMethod s' = Some sm"
      by (simp add: readWaveVariation_Inr addWaveVariation_length addWaveVariation_select)
  qed
  then show "length (waves track') =
           length (waves track) + unat (fst (variationFields (u32le buf (unat offset))))"
    and "Track.variationSelectMethod track' =
           Some (fst (snd (snd (variationFields (u32le buf (unat offset))))))"
    using vf by simp_all
qed


subsection \<open>Event records\<close>

lemma unat_sub_le: "(k::uint8) \<le> ps \<Longrightarrow> unat (ps - k) = unat ps - unat k"
  by (simp add: unat_sub)

lemma eventPlay_stride:
  "eventPlay C buf banks ps fl st p = Inr ((st', ps'), p') \<Longrightarrow> p' + unat ps' = p + 2 + unat ps"
  apply (cases st)
  apply (auto simp: eventPlay_def reader_Inr numeral_add_pos unat_sub_le word_le_nat_alt
      split: if_splits prod.splits)
  done

lemma eventPitch_stride:
  "eventPitch buf ps fl st p = Inr ((st', ps'), p') \<Longrightarrow> p' + unat ps' = p + 2 + unat ps"
  apply (cases st)
  apply (auto simp: eventPitch_def reader_Inr numeral_add_pos unat_sub_le word_le_nat_alt Let_def
      split: if_splits prod.splits)
  done

lemma eventVolume_stride:
  "eventVolume buf ps fl st p = Inr ((st', ps'), p') \<Longrightarrow> p' + unat ps' = p + 2 + unat ps"
  apply (cases st)
  apply (auto simp: eventVolume_def reader_Inr numeral_add_pos unat_sub_le word_le_nat_alt Let_def
      split: if_splits prod.splits)
  done

lemma eventLowPass_stride:
  "eventLowPass buf ps fl st p = Inr ((st', ps'), p') \<Longrightarrow> p' + unat ps' = p + 2 + unat ps"
  apply (cases st)
  apply (auto simp: eventLowPass_def reader_Inr numeral_add_pos unat_sub_le word_le_nat_alt Let_def
      split: if_splits prod.splits)
  done

lemma eventLFOMulti_stride:
  "eventLFOMulti buf ps fl st p = Inr ((st', ps'), p') \<Longrightarrow> p' + unat ps' = p + 2 + unat ps"
  apply (cases st)
  apply (auto simp: eventLFOMulti_def reader_Inr numeral_add_pos unat_sub_le word_le_nat_alt Let_def
      split: if_splits prod.splits)
  done

lemma eventLoop_stride:
  "eventLoop buf ps fl st p = Inr ((st', ps'), p') \<Longrightarrow> p' + unat ps' = p + 2 + unat ps"
  apply (cases st)
  apply (auto simp: eventLoop_def reader_Inr numeral_add_pos)
  done

lemma eventMarker_stride:
  "eventMarker buf ps fl st p = Inr ((st', ps'), p') \<Longrightarrow> p' + unat ps' = p + 2 + unat ps"
  apply (cases st)
  apply (auto simp: eventMarker_def reader_Inr numeral_add_pos unat_sub_le word_le_nat_alt Let_def
      split: if_splits prod.splits)
  done

lemma eventDefault_stride:
  "eventDefault buf ps fl st p = Inr ((st', ps'), p') \<Longrightarrow> p' + unat ps' = p + 2 + unat ps"
  by (auto simp: eventDefault_def reader_Inr numeral_add_pos)

lemma eventSwitch_stride:
  "eventSwitch C buf banks t ps fl st p = Inr ((st', ps'), p') \<Longrightarrow> p' + unat ps' = p + 2 + unat ps"
  unfolding eventSwitch_def
  by (auto split: if_splits dest: eventPlay_stride eventPitch_stride eventVolume_stride
      eventLowPass_stride eventLFOMulti_stride eventLoop_stride eventMarker_stride
      eventDefault_stride)


lemma readEvent_stride:
  assumes "readEvent C buf banks st p = Inr (st', p')"
  shows "p' = p + 8 + unat (buf ! (p + 4))" and "p' \<le> length buf"
proof -
  obtain wo tr so where st: "st = (wo, tr, so)" by (cases st) auto
  from assms st obtain st1 ps' p1 where
    sw: "eventSwitch C buf banks (buf ! p) (buf ! (p + 4)) (buf ! (p + 5))
           (wo, tr\<lparr>events := events tr @
              [(newEvent (buf ! p))\<lparr>timestamp := Some (unat (buf ! (p + 1)) +
                 unat (buf ! (p + 1 + 1)) * 2 ^ 8 + unat (buf ! (p + 1 + 2)) * 2 ^ 16)\<rparr>]\<rparr>, so)
           (p + 6) = Inr ((st1, ps'), p1)"
    and sk: "p1 + unat ps' \<le> length buf" and e: "p' = p1 + unat ps'"
    by (auto simp: readEvent_def reader_Inr numeral_add_pos)
  from eventSwitch_stride [OF sw] e show "p' = p + 8 + unat (buf ! (p + 4))" by simp
  from sk e show "p' \<le> length buf" by simp
qed

lemmas reader_defs = bindR_def returnR_def skip_def readByte_def readSByte_def readUint16LE_def
  readSint16LE_def readUint32LE_def readIEEEFloatLE_def read24_def

lemma eventPlay_succeeds:
  "p + 2 + unat ps \<le> length buf \<Longrightarrow> succeeds (eventPlay C buf banks ps fl st p)"
  by (cases st)
     (auto simp: eventPlay_def succeeds_def reader_defs unat_sub_le word_le_nat_alt
        split: prod.splits)

lemma eventPitch_succeeds:
  "p + 2 + unat ps \<le> length buf \<Longrightarrow> succeeds (eventPitch buf ps fl st p)"
  by (cases st)
     (auto simp: eventPitch_def succeeds_def reader_defs unat_sub_le word_le_nat_alt Let_def)

lemma eventVolume_succeeds:
  "p + 2 + unat ps \<le> length buf \<Longrightarrow> succeeds (eventVolume buf ps fl st p)"
  by (cases st)
     (auto simp: eventVolume_def succeeds_def reader_defs unat_sub_le word_le_nat_alt Let_def)

lemma eventLowPass_succeeds:
  "p + 2 + unat ps \<le> length buf \<Longrightarrow> succeeds (eventLowPass buf ps fl st p)"
  by (cases st)
     (auto simp: eventLowPass_def succeeds_def reader_defs unat_sub_le word_le_nat_alt Let_def)

lemma eventLFOMulti_succeeds:
  "p + 2 + unat ps \<le> length buf \<Longrightarrow> succeeds (eventLFOMulti buf ps fl st p)"
  by (cases st)
     (auto simp: eventLFOMulti_def succeeds_def reader_defs unat_sub_le word_le_nat_alt Let_def)

lemma eventLoop_succeeds:
  "p + 2 + unat ps \<le> length buf \<Longrightarrow> succeeds (eventLoop buf ps fl st p)"
  by (cases st) (auto simp: eventLoop_def succeeds_def reader_defs)

lemma eventMarker_succeeds:
  "p + 2 + unat ps \<le> length buf \<Longrightarrow> succeeds (eventMarker buf ps fl st p)"
  by (cases st)
     (auto simp: eventMarker_def succeeds_def reader_defs unat_sub_le word_le_nat_alt Let_def)

lemma eventDefault_succeeds:
  "p + 2 + unat ps \<le> length buf \<Longrightarrow> succeeds (eventDefault buf ps fl st p)"
  by (auto simp: eventDefault_def succeeds_def reader_defs)

lemma eventSwitch_succeeds:
  "p + 2 + unat ps \<le> length buf \<Longrightarrow> succeeds (eventSwitch C buf banks t ps fl st p)"
  unfolding eventSwitch_def
  by (simp add: eventPlay_succeeds eventPitch_succeeds eventVolume_succeeds eventLowPass_succeeds
      eventLFOMulti_succeeds eventLoop_succeeds eventMarker_succeeds eventDefault_succeeds)

lemma readEvent_succeeds:
  assumes "p + 8 + unat (buf ! (p + 4)) \<le> length buf"
  shows "succeeds (readEvent C buf banks st p)"
proof -
  obtain wo tr so where st: "st = (wo, tr, so)" by (cases st) auto
  define tr1 where "tr1 = tr\<lparr>events := events tr @
              [(newEvent (buf ! p))\<lparr>timestamp := Some (unat (buf ! (p + 1)) +
                 unat (buf ! (p + 1 + 1)) * 2 ^ 8 + unat (buf ! (p + 1 + 2)) * 2 ^ 16)\<rparr>]\<rparr>"
  have "succeeds (eventSwitch C buf banks (buf ! p) (buf ! (p + 4)) (buf ! (p + 5))
          (wo, tr1, so) (p + 6))"
    using assms by (intro eventSwitch_succeeds) simp
  then obtain st1 ps' p1 where
    sw: "eventSwitch C buf banks (buf ! p) (buf ! (p + 4)) (buf ! (p + 5)) (wo, tr1, so) (p + 6)
           = Inr ((st1, ps'), p1)"
    by (auto simp: succeeds_iff)
  from eventSwitch_stride [OF sw] assms have "p1 + unat ps' \<le> length buf" by simp
  with sw assms show ?thesis
    by (cases st1) (simp add: readEvent_def st succeeds_iff reader_Inr numeral_add_pos tr1_def)
qed


lemma waves_setParams: "waves (setParams prm tr) = waves tr"
  by (simp add: setParams_def)

lemma eventPlay_effect:
  "eventPlay C buf banks ps fl (wo, tr, so) p = Inr (((wo', tr', so'), ps'), p') \<Longrightarrow>
     (if 4 \<le> ps
      then (if fl AND kPlayEventMultipleVariations = 0
            then wo' = wo \<and> length (waves tr') = Suc (length (waves tr))
            else wo' = u32le buf (p + 2) \<and> waves tr' = waves tr)
      else wo' = wo \<and> waves tr' = waves tr)"
  by (auto simp: eventPlay_def reader_Inr numeral_add_pos addWaveVariation_length
      split: if_splits prod.splits)

lemma eventPitch_effect:
  "eventPitch buf ps fl (wo, tr, so) p = Inr (((wo', tr', so'), ps'), p') \<Longrightarrow>
     wo' = wo \<and> waves tr' = waves tr"
  by (auto simp: eventPitch_def reader_Inr Let_def waves_setParams split: if_splits)

lemma eventVolume_effect:
  "eventVolume buf ps fl (wo, tr, so) p = Inr (((wo', tr', so'), ps'), p') \<Longrightarrow>
     wo' = wo \<and> waves tr' = waves tr"
  by (auto simp: eventVolume_def reader_Inr Let_def waves_setParams split: if_splits)

lemma eventLowPass_effect:
  "eventLowPass buf ps fl (wo, tr, so) p = Inr (((wo', tr', so'), ps'), p') \<Longrightarrow>
     wo' = wo \<and> waves tr' = waves tr"
  by (auto simp: eventLowPass_def reader_Inr Let_def waves_setParams split: if_splits)

lemma eventLFOMulti_effect:
  "eventLFOMulti buf ps fl (wo, tr, so) p = Inr (((wo', tr', so'), ps'), p') \<Longrightarrow>
     wo' = wo \<and> waves tr' = waves tr"
  by (auto simp: eventLFOMulti_def reader_Inr Let_def waves_setParams split: if_splits)

lemma eventLoop_effect:
  "eventLoop buf ps fl (wo, tr, so) p = Inr (((wo', tr', so'), ps'), p') \<Longrightarrow>
     wo' = wo \<and> waves tr' = waves tr"
  by (auto simp: eventLoop_def reader_Inr Let_def waves_setParams split: if_splits)

lemma eventMarker_effect:
  "eventMarker buf ps fl (wo, tr, so) p = Inr (((wo', tr', so'), ps'), p') \<Longrightarrow>
     wo' = wo \<and> waves tr' = waves tr"
  by (auto simp: eventMarker_def reader_Inr Let_def waves_setParams split: if_splits)

lemma eventDefault_effect:
  "eventDefault buf ps fl (wo, tr, so) p = Inr (((wo', tr', so'), ps'), p') \<Longrightarrow>
     wo' = wo \<and> waves tr' = waves tr"
  by (auto simp: eventDefault_def reader_Inr)

lemma eventSwitch_effect:
  assumes "eventSwitch C buf banks t ps fl (wo, tr, so) p = Inr (((wo', tr', so'), ps'), p')"
  shows "if (t = kEventTypePlay C \<or> t = kEventTypePlayComplex C) \<and> 4 \<le> ps
         then (if fl AND kPlayEventMultipleVariations = 0
               then wo' = wo \<and> length (waves tr') = Suc (length (waves tr))
               else wo' = u32le buf (p + 2) \<and> waves tr' = waves tr)
         else wo' = wo \<and> waves tr' = waves tr"
proof (cases "t = kEventTypePlay C \<or> t = kEventTypePlayComplex C")
  case True
  with assms have "eventPlay C buf banks ps fl (wo, tr, so) p = Inr (((wo', tr', so'), ps'), p')"
    by (simp add: eventSwitch_def)
  from eventPlay_effect [OF this] True show ?thesis by (simp split: if_splits)
next
  case False
  with assms have "wo' = wo \<and> waves tr' = waves tr"
    by (auto simp: eventSwitch_def split: if_splits
        dest: eventPitch_effect eventVolume_effect eventLowPass_effect eventLFOMulti_effect
          eventLoop_effect eventMarker_effect eventDefault_effect)
  with False show ?thesis by simp
qed

lemma readEvent_effect:
  assumes "readEvent C buf banks (wo, tr, so) p = Inr ((wo', tr', so'), p')"
  shows "wo' = (case deferredOffset C buf p of Some off \<Rightarrow> off | None \<Rightarrow> wo)"
    and "length (waves tr') = length (waves tr) + (if directPlay C buf p then 1 else 0)"
proof -
  from assms obtain tr1 ps' p1 where
    sw: "eventSwitch C buf banks (buf ! p) (buf ! (p + 4)) (buf ! (p + 5)) (wo, tr1, so) (p + 6)
           = Inr (((wo', tr', so'), ps'), p1)"
    and w: "waves tr1 = waves tr"
    by (auto simp: readEvent_def reader_Inr numeral_add_pos)
  from eventSwitch_effect [OF sw] w
  show "wo' = (case deferredOffset C buf p of Some off \<Rightarrow> off | None \<Rightarrow> wo)"
    and "length (waves tr') = length (waves tr) + (if directPlay C buf p then 1 else 0)"
    by (auto simp: deferredOffset_def directPlay_def isPlayEvent_def numeral_add_pos
        split: if_splits)
qed


lemma readEvents_effect:
  "loopR (\<lambda>i. readEvent C buf banks) js (wo, tr, so) p = Inr ((wo', tr', so'), p') \<Longrightarrow>
     wo' = last (wo # List.map_filter (deferredOffset C buf) (eventStarts buf p (length js))) \<and>
     length (waves tr') =
       length (waves tr) + length (filter (directPlay C buf) (eventStarts buf p (length js)))"
proof (induction js arbitrary: wo tr so p)
  case Nil
  then show ?case by (simp add: returnR_Inr map_filter_simps)
next
  case (Cons j js)
  from Cons.prems obtain wo1 tr1 so1 p1 where
    e: "readEvent C buf banks (wo, tr, so) p = Inr ((wo1, tr1, so1), p1)"
    and l: "loopR (\<lambda>i. readEvent C buf banks) js (wo1, tr1, so1) p1 = Inr ((wo', tr', so'), p')"
    by (auto simp: bindR_Inr)
  have p1: "p1 = p + 8 + unat (buf ! (p + 4))"
    by (rule readEvent_stride(1) [OF e])
  note ih = Cons.IH [OF l]
  show ?case
  proof (cases "deferredOffset C buf p")
    case None
    with readEvent_effect [OF e] ih p1 show ?thesis
      by (simp add: map_filter_simps)
  next
    case (Some off)
    with readEvent_effect [OF e] ih p1 show ?thesis
      by (simp add: map_filter_simps)
  qed
qed

lemma readComplexTrack_deferred:
  assumes "readComplexTrack C buf banks track sound p = Inr ((track2, sound2), p2)"
  defines "starts \<equiv> eventStarts buf (unat (drop_bit 8 (u32le buf p)))
                      (unat (ucast (u32le buf p AND 0xFF) :: uint8))"
  defines "wo \<equiv> last (0xFFFFFFFF # List.map_filter (deferredOffset C buf) starts)"
  shows "\<exists>track1 p1.
           loopR (\<lambda>i. readEvent C buf banks)
             [0..<unat (ucast (u32le buf p AND 0xFF) :: uint8)] (0xFFFFFFFF, track, sound)
             (unat (drop_bit 8 (u32le buf p))) = Inr ((wo, track1, sound2), p1) \<and>
           length (waves track1) = length (waves track) + length (filter (directPlay C buf) starts) \<and>
           (if wo \<noteq> 0xFFFFFFFF
            then readWaveVariations C buf banks track1 wo p1 = Inr (track2, p2)
            else track2 = track1 \<and> p2 = p1)"
proof -
  from assms(1) obtain wo1 track1 sound1 p1 where
    l: "loopR (\<lambda>i. readEvent C buf banks)
             [0..<unat (ucast (u32le buf p AND 0xFF) :: uint8)] (0xFFFFFFFF, track, sound)
             (unat (drop_bit 8 (u32le buf p))) = Inr ((wo1, track1, sound1), p1)"
    and r: "if wo1 \<noteq> 0xFFFFFFFF
            then readWaveVariations C buf banks track1 wo1 p1 = Inr (track2, p2) \<and> sound2 = sound1
            else track2 = track1 \<and> sound2 = sound1 \<and> p2 = p1"
    by (auto simp: readComplexTrack_def reader_Inr Let_def split: if_splits)
  from readEvents_effect [OF l] have "wo1 = wo"
    and "length (waves track1) = length (waves track) + length (filter (directPlay C buf) starts)"
    by (simp_all add: wo_def starts_def)
  with l r show ?thesis by (auto split: if_splits)
qed

subsection \<open>Running a reader on a concrete buffer\<close>

text \<open>Equations with the position as an argument, so that the simplifier runs a reader
  from the outside in.\<close>

lemma bindR_apply: "bindR m f p = (case m p of Inl e \<Rightarrow> Inl e | Inr (a, p') \<Rightarrow> f a p')"
  by (simp add: bindR_def)
lemma returnR_apply: "returnR a p = Inr (a, p)"
  by (simp add: returnR_def)
lemma throwR_apply: "throwR e p = Inl e"
  by (simp add: throwR_def)
lemma loopR_Nil_apply: "loopR body [] s p = Inr (s, p)"
  by (simp add: returnR_def)
lemma loopR_Cons_apply:
  "loopR body (i # js) s p = (case body i s p of Inl e \<Rightarrow> Inl e | Inr (s', p') \<Rightarrow> loopR body js s' p')"
  by (simp add: bindR_def)
lemma succeeds_Inr: "succeeds (Inr v)" by (simp add: succeeds_def)
lemma succeeds_Inl: "\<not> succeeds (Inl e)" by (simp add: succeeds_def)

lemmas eval_simps = bindR_apply returnR_apply throwR_apply loopR_Nil_apply loopR_Cons_apply
  succeeds_Inr succeeds_Inl
  seek_def skip_def pos_def readByte_def readSByte_def readUint16LE_def readSint16LE_def
  readUint32LE_def readUint32BE_def readIEEEFloatLE_def readStringFixed_def readString_def
  u16le_def u32le_def u32be_def read24_def CLIP_def
  readEvent_def eventSwitch_def eventPlay_def eventPitch_def eventVolume_def eventLowPass_def
  eventLFOMulti_def eventLoop_def eventMarker_def eventDefault_def setParams_def modifyBack_def
  readComplexTrack_def readWaveVariations_def readWaveVariation_def readVariationData_def
  variationFields_def addWaveVariation_def
  exampleConsts_def newEvent_def newWaveVariation_def
  kPlayEventMultipleVariations_def kPitchEventVariation_def kPitchEventRelative_def
  kPitchEventFade_def kLowPassEventRandom_def kLowPassEventRelative_def kLowPassEventSweep_def
  kMarkerEventRepeat_def

subsection \<open>Weights stay in the legal range\<close>

lemma CLIP_range: "amin \<le> amax \<Longrightarrow> amin \<le> CLIP v amin amax \<and> CLIP v amin amax \<le> amax"
  by (auto simp: CLIP_def)

lemma list_all_update: "list_all P xs \<Longrightarrow> P x \<Longrightarrow> list_all P (xs[i := x])"
  by (induction xs arbitrary: i) (auto split: nat.splits)

lemma list_all_resize: "list_all P xs \<Longrightarrow> P d \<Longrightarrow> list_all P (resize d n xs)"
  by (auto simp: resize_def list_all_iff dest: in_set_takeD)

lemma list_all_nth: "list_all P xs \<Longrightarrow> i < length xs \<Longrightarrow> P (xs ! i)"
  by (simp add: list_all_length)

lemma readCueVariation_OK:
  "kWeightMinimum C \<le> kWeightMaximum C \<Longrightarrow> readCueVariation C buf v p = Inr (v', p') \<Longrightarrow>
     cueVariationOK C v'"
  using CLIP_range [of "kWeightMinimum C" "kWeightMaximum C"]
  by (auto simp: readCueVariation_def reader_Inr Let_def cueVariationOK_def split: if_splits)

lemma readCueVariationList_OK:
  "kWeightMinimum C \<le> kWeightMaximum C \<Longrightarrow> readCueVariationList C buf vs p = Inr (vs', p') \<Longrightarrow>
     list_all (cueVariationOK C) vs'"
  by (induction vs arbitrary: p vs') (auto simp: reader_Inr dest: readCueVariation_OK)

lemma readCueVarations_OK:
  "kWeightMinimum C \<le> kWeightMaximum C \<Longrightarrow> readCueVarations C buf cue offset p = Inr (cue', p') \<Longrightarrow>
     cueOK C cue'"
  by (auto simp: readCueVarations_def reader_Inr cueOK_def split: prod.splits
      dest: readCueVariationList_OK)

lemma addWaveVariation_OK:
  "kWeightMinimum C \<le> kWeightMaximum C \<Longrightarrow> trackOK C track \<Longrightarrow>
     trackOK C (addWaveVariation C banks track indices a b)"
  using CLIP_range [of "kWeightMinimum C" "kWeightMaximum C"]
  by (auto simp: addWaveVariation_def Let_def trackOK_def waveVariationOK_def)

lemma trackOK_select: "trackOK C (track\<lparr>Track.variationSelectMethod := m\<rparr>) = trackOK C track"
  by (simp add: trackOK_def)

lemma trackOK_events: "trackOK C (track\<lparr>events := es\<rparr>) = trackOK C track"
  by (simp add: trackOK_def)

lemma trackOK_setParams: "trackOK C (setParams prm track) = trackOK C track"
  by (simp add: trackOK_def setParams_def)

lemma trackOK_newTrack: "trackOK C newTrack"
  by (simp add: trackOK_def newTrack_def)

lemma readWaveVariations_OK:
  assumes "kWeightMinimum C \<le> kWeightMaximum C" and "trackOK C track"
    and "readWaveVariations C buf banks track offset p = Inr (track', p')"
  shows "trackOK C track'"
proof -
  from assms(3) obtain n sm p1 where
    l: "loopR (\<lambda>i. readWaveVariation C buf banks) [0..<n]
          (track\<lparr>Track.variationSelectMethod := Some sm\<rparr>) p1 = Inr (track', p')"
    by (auto simp: readWaveVariations_def reader_Inr readVariationData_Inr split: prod.splits)
  show ?thesis
    by (rule loopR_invariant [OF l, where I = "trackOK C"])
       (auto simp: trackOK_select assms readWaveVariation_Inr addWaveVariation_OK)
qed


lemma eventPlay_OK:
  "eventPlay C buf banks ps fl (wo, tr, so) p = Inr (((wo', tr', so'), ps'), p') \<Longrightarrow>
     kWeightMinimum C \<le> kWeightMaximum C \<Longrightarrow> trackOK C tr \<Longrightarrow>
     trackOK C tr' \<and> tracks so' = tracks so"
  by (auto simp: eventPlay_def reader_Inr Let_def trackOK_setParams trackOK_select addWaveVariation_OK
      split: if_splits prod.splits)

lemma eventPitch_OK:
  "eventPitch buf ps fl (wo, tr, so) p = Inr (((wo', tr', so'), ps'), p') \<Longrightarrow>
     kWeightMinimum C \<le> kWeightMaximum C \<Longrightarrow> trackOK C tr \<Longrightarrow>
     trackOK C tr' \<and> tracks so' = tracks so"
  by (auto simp: eventPitch_def reader_Inr Let_def trackOK_setParams trackOK_select addWaveVariation_OK
      split: if_splits prod.splits)

lemma eventVolume_OK:
  "eventVolume buf ps fl (wo, tr, so) p = Inr (((wo', tr', so'), ps'), p') \<Longrightarrow>
     kWeightMinimum C \<le> kWeightMaximum C \<Longrightarrow> trackOK C tr \<Longrightarrow>
     trackOK C tr' \<and> tracks so' = tracks so"
  by (auto simp: eventVolume_def reader_Inr Let_def trackOK_setParams trackOK_select addWaveVariation_OK
      split: if_splits prod.splits)

lemma eventLowPass_OK:
  "eventLowPass buf ps fl (wo, tr, so) p = Inr (((wo', tr', so'), ps'), p') \<Longrightarrow>
     kWeightMinimum C \<le> kWeightMaximum C \<Longrightarrow> trackOK C tr \<Longrightarrow>
     trackOK C tr' \<and> tracks so' = tracks so"
  by (auto simp: eventLowPass_def reader_Inr Let_def trackOK_setParams trackOK_select addWaveVariation_OK
      split: if_splits prod.splits)

lemma eventLFOMulti_OK:
  "eventLFOMulti buf ps fl (wo, tr, so) p = Inr (((wo', tr', so'), ps'), p') \<Longrightarrow>
     kWeightMinimum C \<le> kWeightMaximum C \<Longrightarrow> trackOK C tr \<Longrightarrow>
     trackOK C tr' \<and> tracks so' = tracks so"
  by (auto simp: eventLFOMulti_def reader_Inr Let_def trackOK_setParams trackOK_select addWaveVariation_OK
      split: if_splits prod.splits)

lemma eventLoop_OK:
  "eventLoop buf ps fl (wo, tr, so) p = Inr (((wo', tr', so'), ps'), p') \<Longrightarrow>
     kWeightMinimum C \<le> kWeightMaximum C \<Longrightarrow> trackOK C tr \<Longrightarrow>
     trackOK C tr' \<and> tracks so' = tracks so"
  by (auto simp: eventLoop_def reader_Inr Let_def trackOK_setParams trackOK_select addWaveVariation_OK
      split: if_splits prod.splits)

lemma eventMarker_OK:
  "eventMarker buf ps fl (wo, tr, so) p = Inr (((wo', tr', so'), ps'), p') \<Longrightarrow>
     kWeightMinimum C \<le> kWeightMaximum C \<Longrightarrow> trackOK C tr \<Longrightarrow>
     trackOK C tr' \<and> tracks so' = tracks so"
  by (auto simp: eventMarker_def reader_Inr Let_def trackOK_setParams trackOK_select addWaveVariation_OK
      split: if_splits prod.splits)

lemma eventDefault_OK:
  "eventDefault buf ps fl (wo, tr, so) p = Inr (((wo', tr', so'), ps'), p') \<Longrightarrow>
     kWeightMinimum C \<le> kWeightMaximum C \<Longrightarrow> trackOK C tr \<Longrightarrow>
     trackOK C tr' \<and> tracks so' = tracks so"
  by (auto simp: eventDefault_def reader_Inr Let_def trackOK_setParams trackOK_select addWaveVariation_OK
      split: if_splits prod.splits)

lemma eventSwitch_OK:
  "eventSwitch C buf banks t ps fl (wo, tr, so) p = Inr (((wo', tr', so'), ps'), p') \<Longrightarrow>
     kWeightMinimum C \<le> kWeightMaximum C \<Longrightarrow> trackOK C tr \<Longrightarrow>
     trackOK C tr' \<and> tracks so' = tracks so"
  unfolding eventSwitch_def
  by (auto split: if_splits dest: eventPlay_OK eventPitch_OK eventVolume_OK eventLowPass_OK
      eventLFOMulti_OK eventLoop_OK eventMarker_OK eventDefault_OK)

lemma readEvent_OK:
  assumes "readEvent C buf banks (wo, tr, so) p = Inr ((wo', tr', so'), p')"
    and "kWeightMinimum C \<le> kWeightMaximum C" and "trackOK C tr"
  shows "trackOK C tr' \<and> tracks so' = tracks so"
proof -
  from assms(1) obtain tr1 t ps fl ps' p0 p1 where
    sw: "eventSwitch C buf banks t ps fl (wo, tr1, so) p0 = Inr (((wo', tr', so'), ps'), p1)"
    and w: "waves tr1 = waves tr"
    by (auto simp: readEvent_def reader_Inr)
  from w assms(3) have "trackOK C tr1" by (simp add: trackOK_def)
  from eventSwitch_OK [OF sw assms(2) this] show ?thesis .
qed

lemma readEvents_OK:
  assumes "loopR (\<lambda>i. readEvent C buf banks) js (wo, tr, so) p = Inr ((wo', tr', so'), p')"
    and "kWeightMinimum C \<le> kWeightMaximum C" and "trackOK C tr"
  shows "trackOK C tr' \<and> tracks so' = tracks so"
proof -
  have "(case (wo', tr', so') of (w, t, s) \<Rightarrow> trackOK C t \<and> tracks s = tracks so)"
  proof (rule loopR_invariant [OF assms(1)])
    show "case (wo, tr, so) of (w, t, s) \<Rightarrow> trackOK C t \<and> tracks s = tracks so"
      using assms(3) by simp
  next
    fix i s q s' q'
    assume "case s of (w, t, s) \<Rightarrow> trackOK C t \<and> tracks s = tracks so"
      and "readEvent C buf banks s q = Inr (s', q')"
    then show "case s' of (w, t, s) \<Rightarrow> trackOK C t \<and> tracks s = tracks so"
      using readEvent_OK [OF _ assms(2)] by (cases s; cases s') fastforce
  qed
  then show ?thesis by simp
qed

lemma readComplexTrack_OK:
  assumes "readComplexTrack C buf banks track sound p = Inr ((track', sound'), p')"
    and "kWeightMinimum C \<le> kWeightMaximum C" and "trackOK C track"
  shows "trackOK C track' \<and> tracks sound' = tracks sound"
proof -
  from assms(1) obtain js q wo track1 p1 where
    l: "loopR (\<lambda>i. readEvent C buf banks) js (0xFFFFFFFF, track, sound) q
          = Inr ((wo, track1, sound'), p1)"
    and r: "if wo \<noteq> 0xFFFFFFFF
            then readWaveVariations C buf banks track1 wo p1 = Inr (track', p')
            else track' = track1"
    by (auto simp: readComplexTrack_def reader_Inr Let_def split: if_splits)
  from readEvents_OK [OF l assms(2,3)] have 1: "trackOK C track1" and 2: "tracks sound' = tracks sound"
    by simp_all
  from r 1 readWaveVariations_OK [OF assms(2) 1] have "trackOK C track'"
    by (auto split: if_splits)
  with 2 show ?thesis by simp
qed

lemma readTrack_OK:
  assumes "readTrack C buf banks indicesOrOffset i sound p = Inr (sound', p')"
    and "kWeightMinimum C \<le> kWeightMaximum C" and "soundOK C sound" and "i < length (tracks sound)"
  shows "soundOK C sound' \<and> length (tracks sound') = length (tracks sound)"
proof -
  from assms(1) obtain q track sound1 where
    c: "readComplexTrack C buf banks (tracks sound ! i) sound q = Inr ((track, sound1), p')"
    and s: "sound' = sound1\<lparr>tracks := (tracks sound1)[i := track]\<rparr>"
    by (auto simp: readTrack_def reader_Inr)
  have "trackOK C (tracks sound ! i)"
    using assms(3,4) by (simp add: soundOK_def list_all_nth)
  from readComplexTrack_OK [OF c assms(2) this] assms(3) s show ?thesis
    by (simp add: soundOK_def list_all_update)
qed

lemma readTracks_OK:
  assumes "readTracks C buf banks sound indicesOrOffset count flags p = Inr (sound', p')"
    and "kWeightMinimum C \<le> kWeightMaximum C" and "soundOK C sound"
  shows "soundOK C sound'"
proof -
  define sound1 where "sound1 = sound\<lparr>tracks := resize newTrack (unat count) (tracks sound)\<rparr>"
  have ok1: "soundOK C sound1" and len1: "length (tracks sound1) = unat count"
    using assms(3) by (simp_all add: sound1_def soundOK_def list_all_resize trackOK_newTrack length_resize)
  have c1: "flags AND (kSoundTrivial OR kSoundSimple) \<noteq> 0 \<Longrightarrow> count = 1"
    using assms(1) by (auto simp: readTracks_def throwR_Inr split: if_splits)
  show ?thesis
  proof (cases "flags AND kSoundTrivial \<noteq> 0")
    case True
    then have "flags AND (kSoundTrivial OR kSoundSimple) \<noteq> 0"
      by (metis bit.conj_disj_distrib or_eq_0_iff)
    with c1 len1 have "0 < length (tracks sound1)" by simp
    with ok1 have "trackOK C (tracks sound1 ! 0)" by (simp add: soundOK_def list_all_nth)
    with True assms(1,2) ok1 show ?thesis
      by (auto simp: readTracks_def Let_def throwR_Inr returnR_Inr sound1_def [symmetric]
          soundOK_def list_all_update trackOK_events trackOK_select addWaveVariation_OK
          split: if_splits)
  next
    case False
    note nt = this
    show ?thesis
    proof (cases "flags AND kSoundSimple \<noteq> 0")
      case True
      then have "flags AND (kSoundTrivial OR kSoundSimple) \<noteq> 0"
        by (metis bit.conj_disj_distrib or_eq_0_iff)
      with c1 len1 have "0 < length (tracks sound1)" by simp
      with ok1 have t0: "trackOK C (tracks sound1 ! 0)" by (simp add: soundOK_def list_all_nth)
      from True nt assms(1) obtain track where
        w: "readWaveVariations C buf banks (tracks sound1 ! 0) indicesOrOffset p = Inr (track, p')"
        and s: "sound' = sound1\<lparr>tracks := (tracks sound1)
                  [0 := track\<lparr>events := events track @ [newEvent (kEventTypePlay C)]\<rparr>]\<rparr>"
        by (auto simp: readTracks_def Let_def throwR_Inr reader_Inr sound1_def [symmetric]
            split: if_splits)
      from readWaveVariations_OK [OF assms(2) t0 w] s ok1 show ?thesis
        by (simp add: soundOK_def list_all_update trackOK_events)
    next
      case False
      with nt assms(1) have
        l: "loopR (readTrack C buf banks indicesOrOffset) [0..<unat count] sound1 p = Inr (sound', p')"
        by (auto simp: readTracks_def Let_def throwR_Inr sound1_def [symmetric] split: if_splits)
      have "soundOK C sound' \<and> length (tracks sound') = unat count"
      proof (rule loopR_invariant [OF l])
        show "soundOK C sound1 \<and> length (tracks sound1) = unat count"
          using ok1 len1 by simp
      next
        fix i s q s' q'
        assume "i \<in> set [0..<unat count]" and "soundOK C s \<and> length (tracks s) = unat count"
          and "readTrack C buf banks indicesOrOffset i s q = Inr (s', q')"
        then show "soundOK C s' \<and> length (tracks s') = unat count"
          using readTrack_OK [of C buf banks indicesOrOffset i s q s' q', OF _ assms(2)] by simp
      qed
      then show ?thesis by simp
    qed
  qed
qed


lemma readSound_bound:
  assumes "readSound C buf offset offset3DParams i sb p = Inr (sb', p')"
  shows "unat offset + i * kSoundDefinitionSize + 20 \<le> length buf"
  using assms
  by (simp add: readSound_def reader_defs seek_def Let_def split: if_splits)

lemma readSound_unfold:
  assumes "unat offset + i * kSoundDefinitionSize + 20 \<le> length buf"
  defines "r \<equiv> unat offset + i * kSoundDefinitionSize"
  shows "\<exists>sound1. tracks sound1 = tracks (sounds sb ! i) \<and>
     readSound C buf offset offset3DParams i sb p =
     bindR (if buf ! (r + 11) AND kSound3D \<noteq> 0
            then bindR (read3DParams buf (u16le buf (r + 4)) (buf ! (r + 15))
                          (unat offset3DParams + unat (u16le buf (r + 12)) * k3DDefinitionSize))
                   (\<lambda>p3. returnR (sound1\<lparr>params3D := Some p3\<rparr>))
            else returnR sound1) (\<lambda>sound2.
     bindR (readTracks C buf (waveBanks sb) sound2 (u32le buf r) (ucast (buf ! (r + 8)))
              (buf ! (r + 11))) (\<lambda>sound3.
       returnR (sb\<lparr>sounds := (sounds sb)[i := sound3]\<rparr>))) (r + 20)"
  apply (rule exI [of _ "(sounds sb ! i)
     \<lparr>volume := u16le buf (r + 4) AND 0x1FF, pitch := sint (u16le buf (r + 6)),
       layer := buf ! (r + 9), categoryIndex := buf ! (r + 10), priority := buf ! (r + 14),
       parametricEQ := (buf ! (r + 11) AND kSoundEQ \<noteq> 0),
       parametricEQGain := sint (u16le buf (r + 16)), parametricEQQ := u16le buf (r + 18) AND 7,
       parametricEQFreq := CLIP (drop_bit 3 (u16le buf (r + 18)) AND 0x1FFF) 30 8000,
       gainBoost := (buf ! (r + 11) AND kSoundGainBoost \<noteq> 0),
       is3D := (buf ! (r + 11) AND kSound3D \<noteq> 0)\<rparr>"])
  using assms(1) unfolding r_def
  apply (simp add: readSound_def reader_defs seek_def Let_def numeral_add_pos add.assoc)
  done

lemma readSound_D:
  assumes "readSound C buf offset offset3DParams i sb p = Inr (sb', p')"
  defines "r \<equiv> unat offset + i * kSoundDefinitionSize"
  shows "\<exists>sound2 q sound3.
           r + 20 \<le> length buf \<and>
           tracks sound2 = tracks (sounds sb ! i) \<and>
           (if buf ! (r + 11) AND kSound3D \<noteq> 0
            then \<exists>p3. read3DParams buf (u16le buf (r + 4)) (buf ! (r + 15))
                        (unat offset3DParams + unat (u16le buf (r + 12)) * k3DDefinitionSize)
                        (r + 20) = Inr (p3, q)
            else q = r + 20) \<and>
           readTracks C buf (waveBanks sb) sound2 (u32le buf r) (ucast (buf ! (r + 8)))
             (buf ! (r + 11)) q = Inr (sound3, p') \<and>
           sb' = sb\<lparr>sounds := (sounds sb)[i := sound3]\<rparr>"
proof -
  have b: "r + 20 \<le> length buf"
    using readSound_bound [OF assms(1)] by (simp add: r_def)
  from readSound_unfold [of offset i buf sb C offset3DParams p] b obtain sound1 where
    t: "tracks sound1 = tracks (sounds sb ! i)" and
    u: "readSound C buf offset offset3DParams i sb p =
     bindR (if buf ! (r + 11) AND kSound3D \<noteq> 0
            then bindR (read3DParams buf (u16le buf (r + 4)) (buf ! (r + 15))
                          (unat offset3DParams + unat (u16le buf (r + 12)) * k3DDefinitionSize))
                   (\<lambda>p3. returnR (sound1\<lparr>params3D := Some p3\<rparr>))
            else returnR sound1) (\<lambda>sound2.
     bindR (readTracks C buf (waveBanks sb) sound2 (u32le buf r) (ucast (buf ! (r + 8)))
              (buf ! (r + 11))) (\<lambda>sound3.
       returnR (sb\<lparr>sounds := (sounds sb)[i := sound3]\<rparr>))) (r + 20)"
    unfolding r_def by blast
  from assms(1) [unfolded u] b t show ?thesis
  proof (cases "buf ! (r + 11) AND kSound3D \<noteq> 0")
    case True
    with assms(1) [unfolded u] obtain p3 q sound3 where
      "read3DParams buf (u16le buf (r + 4)) (buf ! (r + 15))
         (unat offset3DParams + unat (u16le buf (r + 12)) * k3DDefinitionSize) (r + 20) = Inr (p3, q)"
      "readTracks C buf (waveBanks sb) (sound1\<lparr>params3D := Some p3\<rparr>) (u32le buf r)
         (ucast (buf ! (r + 8))) (buf ! (r + 11)) q = Inr (sound3, p')"
      "sb' = sb\<lparr>sounds := (sounds sb)[i := sound3]\<rparr>"
      by (auto simp: reader_Inr)
    with b t True show ?thesis
      by (intro exI [of _ "sound1\<lparr>params3D := Some p3\<rparr>"] exI [of _ q] exI [of _ sound3]) auto
  next
    case False
    with assms(1) [unfolded u] obtain sound3 where
      "readTracks C buf (waveBanks sb) sound1 (u32le buf r)
         (ucast (buf ! (r + 8))) (buf ! (r + 11)) (r + 20) = Inr (sound3, p')"
      "sb' = sb\<lparr>sounds := (sounds sb)[i := sound3]\<rparr>"
      by (auto simp: reader_Inr)
    with b t False show ?thesis
      by (intro exI [of _ sound1] exI [of _ "r + 20"] exI [of _ sound3]) auto
  qed
qed


lemma seek_step: "off \<le> length buf \<Longrightarrow> bindR (seek buf off) f p = f () off"
  by (simp add: bindR_def seek_def)

lemma skip_step: "p + n \<le> length buf \<Longrightarrow> bindR (skip buf n) f p = f () (p + n)"
  by (simp add: bindR_def skip_def)

lemma readByte_step: "p + 1 \<le> length buf \<Longrightarrow> bindR (readByte buf) f p = f (buf ! p) (p + 1)"
  by (simp add: bindR_def readByte_def)

lemma readUint16LE_step:
  "p + 2 \<le> length buf \<Longrightarrow> bindR (readUint16LE buf) f p = f (u16le buf p) (p + 2)"
  by (simp add: bindR_def readUint16LE_def)

lemma readSint16LE_step:
  "p + 2 \<le> length buf \<Longrightarrow> bindR (readSint16LE buf) f p = f (sint (u16le buf p)) (p + 2)"
  by (simp add: bindR_def readSint16LE_def)

lemma readUint32LE_step:
  "p + 4 \<le> length buf \<Longrightarrow> bindR (readUint32LE buf) f p = f (u32le buf p) (p + 4)"
  by (simp add: bindR_def readUint32LE_def)

lemma readUint32BE_step:
  "p + 4 \<le> length buf \<Longrightarrow> bindR (readUint32BE buf) f p = f (u32be buf p) (p + 4)"
  by (simp add: bindR_def readUint32BE_def)

lemma readStringFixed_step:
  "p + n \<le> length buf \<Longrightarrow>
     bindR (readStringFixed buf n) f p = f (takeWhile (\<lambda>b. b \<noteq> 0) (take n (drop p buf))) (p + n)"
  by (simp add: bindR_def readStringFixed_def)

lemma pos_step: "bindR pos f p = f p p"
  by (simp add: bindR_def pos_def)

lemmas reader_steps = seek_step skip_step readByte_step readUint16LE_step readSint16LE_step
  readUint32LE_step readUint32BE_step readStringFixed_step pos_step

lemma readCue_bound:
  assumes "readCue C buf xsbFlags offset i sb p = Inr (sb', p')"
  shows "unat offset + i * kCueDefinitionSize + 20 \<le> length buf"
  using assms
  by (clarsimp simp: readCue_def reader_Inr numeral_add_pos)

lemma readCue_unfold:
  assumes "unat offset + i * kCueDefinitionSize + 20 \<le> length buf"
  defines "r \<equiv> unat offset + i * kCueDefinitionSize"
  shows "readCue C buf xsbFlags offset i sb p =
     bindR (if xsbFlags AND kXSBNoCueNames = 0 \<and> u32le buf (r + 4) \<noteq> 0xFFFFFFFF
            then bindR (seek buf (unat (u32le buf (r + 4)))) (\<lambda>_.
                 bindR (readString buf) (\<lambda>nm.
                   returnR (sb\<lparr>cues := (cues sb)[i := (cues sb ! i)\<lparr>Cue.name := nm\<rparr>],
                               cueMap := (cueMap sb)(nm \<mapsto> i)\<rparr>)))
            else returnR sb) (\<lambda>sb1.
       if u32le buf (r + 8) \<noteq> 0xFFFFFFFF
       then bindR (readCueVarations C buf (cues sb1 ! i) (u32le buf (r + 8))) (\<lambda>cue.
              returnR (sb1\<lparr>cues := (cues sb1)[i := cue]\<rparr>))
       else if u16le buf (r + 2) \<noteq> 0xFFFF
       then returnR
              (sb1\<lparr>cues := (cues sb1)[i := (cues sb1 ! i)
                 \<lparr>Cue.variationSelectMethod := Some (kSelectMethodOrdered C),
                  variations :=
                    modifyBack
                      (\<lambda>v. v\<lparr>soundIndex := unat (u16le buf (r + 2)),
                              CueVariation.weightMin := kWeightMinimum C,
                              CueVariation.weightMax := kWeightMaximum C\<rparr>)
                      (resize newCueVariation 1 (variations (cues sb1 ! i)))\<rparr>]\<rparr>)
       else returnR sb1) (r + 20)"
  using assms(1) unfolding r_def readCue_def
  by (simp add: reader_steps numeral_add_pos del: add_2_eq_Suc' add_2_eq_Suc)

lemma load_bound:
  assumes "load C buf p = Inr (sb, p')"
  shows "p + 56 \<le> length buf"
  using assms
  by (clarsimp simp: load_def reader_Inr numeral_add_pos readStringFixed_def pos_def
      split: if_splits)

lemma load_unfold:
  assumes "p + 56 \<le> length buf"
  shows "load C buf p =
     (if u32be buf p \<noteq> kXSBID then Inl (NotXSB (u32be buf p))
      else if u16le buf (p + 4) \<noteq> 11 then Inl (UnsupportedVersion (u16le buf (p + 4)))
      else bindR (readWaveBanks buf
                    (newSoundBank\<lparr>SoundBank.name :=
                       takeWhile (\<lambda>b. b \<noteq> 0) (take 16 (drop (p + 40) buf))\<rparr>)
                    (u32le buf (p + 8)) (ucast (u16le buf (p + 34)))) (\<lambda>sb1.
           bindR (readCues C buf sb1 (ucast (u16le buf (p + 24))) (of_nat (p + 56))
                    (ucast (u16le buf (p + 30)))) (\<lambda>sb2.
             readSounds C buf sb2
               (of_nat (p + 56 + unat (u16le buf (p + 30)) * kCueDefinitionSize))
               (ucast (u16le buf (p + 28))) (u32le buf (p + 16)))) (p + 56))"
  using assms unfolding load_def
  by (simp add: reader_steps numeral_add_pos throwR_def Let_def del: add_2_eq_Suc' add_2_eq_Suc)


lemma readSound_OK:
  assumes "readSound C buf offset offset3DParams i sb p = Inr (sb', p')"
    and "kWeightMinimum C \<le> kWeightMaximum C" and "weightsOK C sb" and "i < length (sounds sb)"
  shows "weightsOK C sb' \<and> length (sounds sb') = length (sounds sb) \<and>
         cues sb' = cues sb \<and> cueMap sb' = cueMap sb \<and> waveBanks sb' = waveBanks sb"
proof -
  from readSound_D [OF assms(1)] obtain sound2 q sound3 where
    t: "tracks sound2 = tracks (sounds sb ! i)"
    and r: "readTracks C buf (waveBanks sb) sound2
              (u32le buf (unat offset + i * kSoundDefinitionSize))
              (ucast (buf ! (unat offset + i * kSoundDefinitionSize + 8)))
              (buf ! (unat offset + i * kSoundDefinitionSize + 11)) q = Inr (sound3, p')"
    and s: "sb' = sb\<lparr>sounds := (sounds sb)[i := sound3]\<rparr>"
    by blast
  have "soundOK C (sounds sb ! i)"
    using assms(3,4) by (simp add: weightsOK_def list_all_nth)
  with t have "soundOK C sound2" by (simp add: soundOK_def)
  from readTracks_OK [OF r assms(2) this] assms(3) s show ?thesis
    by (simp add: weightsOK_def list_all_update)
qed

lemma soundOK_newSound: "soundOK C newSound"
  by (simp add: soundOK_def newSound_def)

lemma cueOK_newCue: "cueOK C newCue"
  by (simp add: cueOK_def newCue_def)

lemma readSounds_OK:
  assumes "readSounds C buf sb offset count offset3DParams p = Inr (sb', p')"
    and "kWeightMinimum C \<le> kWeightMaximum C" and "weightsOK C sb"
  shows "weightsOK C sb' \<and> length (sounds sb') = unat count \<and>
         cues sb' = cues sb \<and> cueMap sb' = cueMap sb \<and> waveBanks sb' = waveBanks sb"
proof (rule loopR_invariant [OF assms(1) [unfolded readSounds_def]])
  show "weightsOK C (sb\<lparr>sounds := resize newSound (unat count) (sounds sb)\<rparr>) \<and>
    length (sounds (sb\<lparr>sounds := resize newSound (unat count) (sounds sb)\<rparr>)) = unat count \<and>
    cues (sb\<lparr>sounds := resize newSound (unat count) (sounds sb)\<rparr>) = cues sb \<and>
    cueMap (sb\<lparr>sounds := resize newSound (unat count) (sounds sb)\<rparr>) = cueMap sb \<and>
    waveBanks (sb\<lparr>sounds := resize newSound (unat count) (sounds sb)\<rparr>) = waveBanks sb"
    using assms(3) by (simp add: weightsOK_def list_all_resize soundOK_newSound length_resize)
next
  fix i s q s' q'
  assume "i \<in> set [0..<unat count]"
    and "weightsOK C s \<and> length (sounds s) = unat count \<and>
         cues s = cues sb \<and> cueMap s = cueMap sb \<and> waveBanks s = waveBanks sb"
    and "readSound C buf offset offset3DParams i s q = Inr (s', q')"
  then show "weightsOK C s' \<and> length (sounds s') = unat count \<and>
         cues s' = cues sb \<and> cueMap s' = cueMap sb \<and> waveBanks s' = waveBanks sb"
    using readSound_OK [of C buf offset offset3DParams i s q s' q', OF _ assms(2)] by simp
qed

lemma modifyBack_resize1:
  "modifyBack f (resize d (Suc 0) xs) = [f (case xs of [] \<Rightarrow> d | x # _ \<Rightarrow> x)]"
  by (cases xs) (simp_all add: modifyBack_def resize_def)

lemma readCue_OK:
  assumes "readCue C buf xsbFlags offset i sb p = Inr (sb', p')"
    and "kWeightMinimum C \<le> kWeightMaximum C" and "weightsOK C sb"
  shows "weightsOK C sb' \<and> length (cues sb') = length (cues sb) \<and>
         sounds sb' = sounds sb \<and> waveBanks sb' = waveBanks sb"
proof -
  define P where "P = (\<lambda>s. weightsOK C s \<and> length (cues s) = length (cues sb) \<and>
         sounds s = sounds sb \<and> waveBanks s = waveBanks sb)"
  note u = readCue_unfold [OF readCue_bound [OF assms(1)], of C xsbFlags sb p]
  from assms(1) [unfolded u] obtain sb1 q where
    n: "(if xsbFlags AND kXSBNoCueNames = 0 \<and>
            u32le buf (unat offset + i * kCueDefinitionSize + 4) \<noteq> 0xFFFFFFFF
         then bindR (seek buf (unat (u32le buf (unat offset + i * kCueDefinitionSize + 4)))) (\<lambda>_.
              bindR (readString buf) (\<lambda>nm.
                returnR (sb\<lparr>cues := (cues sb)[i := (cues sb ! i)\<lparr>Cue.name := nm\<rparr>],
                            cueMap := (cueMap sb)(nm \<mapsto> i)\<rparr>)))
         else returnR sb) (unat offset + i * kCueDefinitionSize + 20) = Inr (sb1, q)"
    and v: "(if u32le buf (unat offset + i * kCueDefinitionSize + 8) \<noteq> 0xFFFFFFFF
       then bindR (readCueVarations C buf (cues sb1 ! i)
                     (u32le buf (unat offset + i * kCueDefinitionSize + 8))) (\<lambda>cue.
              returnR (sb1\<lparr>cues := (cues sb1)[i := cue]\<rparr>))
       else if u16le buf (unat offset + i * kCueDefinitionSize + 2) \<noteq> 0xFFFF
       then returnR
              (sb1\<lparr>cues := (cues sb1)[i := (cues sb1 ! i)
                 \<lparr>Cue.variationSelectMethod := Some (kSelectMethodOrdered C),
                  variations :=
                    modifyBack
                      (\<lambda>v. v\<lparr>soundIndex := unat (u16le buf (unat offset + i * kCueDefinitionSize + 2)),
                              CueVariation.weightMin := kWeightMinimum C,
                              CueVariation.weightMax := kWeightMaximum C\<rparr>)
                      (resize newCueVariation 1 (variations (cues sb1 ! i)))\<rparr>]\<rparr>)
       else returnR sb1) q = Inr (sb', p')"
    by (auto simp: bindR_Inr)
  have c: "\<And>nm. cueOK C ((cues sb ! i)\<lparr>Cue.name := nm\<rparr>) = cueOK C (cues sb ! i)"
    by (simp add: cueOK_def)
  have 1: "P sb1"
  proof (cases "i < length (cues sb)")
    case True
    with n assms(3) show ?thesis
      by (auto simp: P_def reader_Inr weightsOK_def list_all_update c list_all_nth
          split: if_splits)
  next
    case False
    with n assms(3) show ?thesis
      by (auto simp: P_def reader_Inr weightsOK_def list_update_beyond not_less split: if_splits)
  qed
  have "P sb'"
  proof (cases "u32le buf (unat offset + i * kCueDefinitionSize + 8) \<noteq> 0xFFFFFFFF")
    case True
    with v obtain cue where
      "readCueVarations C buf (cues sb1 ! i)
         (u32le buf (unat offset + i * kCueDefinitionSize + 8)) q = Inr (cue, p')"
      and "sb' = sb1\<lparr>cues := (cues sb1)[i := cue]\<rparr>"
      by (auto simp: reader_Inr)
    with 1 readCueVarations_OK [OF assms(2)] show ?thesis
      by (auto simp: P_def weightsOK_def list_all_update)
  next
    case False
    with v 1 assms(2) show ?thesis
      by (auto simp: P_def reader_Inr weightsOK_def modifyBack_resize1 cueOK_def
          cueVariationOK_def intro!: list_all_update split: if_splits)
  qed
  then show ?thesis by (simp add: P_def)
qed


lemma readCues_OK:
  assumes "readCues C buf sb xsbFlags offset count p = Inr (sb', p')"
    and "kWeightMinimum C \<le> kWeightMaximum C" and "weightsOK C sb"
  shows "weightsOK C sb' \<and> length (cues sb') = unat count \<and>
         sounds sb' = sounds sb \<and> waveBanks sb' = waveBanks sb"
proof (rule loopR_invariant [OF assms(1) [unfolded readCues_def]])
  show "weightsOK C (sb\<lparr>cues := resize newCue (unat count) (cues sb)\<rparr>) \<and>
    length (cues (sb\<lparr>cues := resize newCue (unat count) (cues sb)\<rparr>)) = unat count \<and>
    sounds (sb\<lparr>cues := resize newCue (unat count) (cues sb)\<rparr>) = sounds sb \<and>
    waveBanks (sb\<lparr>cues := resize newCue (unat count) (cues sb)\<rparr>) = waveBanks sb"
    using assms(3) by (simp add: weightsOK_def list_all_resize cueOK_newCue length_resize)
next
  fix i s q s' q'
  assume "i \<in> set [0..<unat count]"
    and "weightsOK C s \<and> length (cues s) = unat count \<and>
         sounds s = sounds sb \<and> waveBanks s = waveBanks sb"
    and "readCue C buf xsbFlags offset i s q = Inr (s', q')"
  then show "weightsOK C s' \<and> length (cues s') = unat count \<and>
         sounds s' = sounds sb \<and> waveBanks s' = waveBanks sb"
    using readCue_OK [of C buf xsbFlags offset i s q s' q', OF _ assms(2)] by simp
qed

lemma readWaveBanks_frame:
  assumes "readWaveBanks buf sb offset count p = Inr (sb', p')"
  shows "length (waveBanks sb') = unat count \<and> cues sb' = cues sb \<and> cueMap sb' = cueMap sb \<and>
         sounds sb' = sounds sb"
proof -
  from assms obtain q where
    l: "loopR (readWaveBank buf) [0..<unat count]
          (sb\<lparr>waveBanks := resize newWaveBank (unat count) (waveBanks sb)\<rparr>) q = Inr (sb', p')"
    by (auto simp: readWaveBanks_def reader_Inr)
  show ?thesis
    by (rule loopR_invariant [OF l])
       (auto simp: length_resize readWaveBank_def bindR_Inr returnR_Inr)
qed

lemma unat_u16_bound: "unat (w :: uint16) < 65536"
  using unsigned_less [of w, where 'a = nat] by simp

lemma unat_ucast_16_32: "unat (ucast (w :: uint16) :: uint32) = unat w"
  using unat_u16_bound [of w] by (simp add: unsigned_ucast_eq take_bit_nat_eq_self)

lemma unat_offsetSounds:
  "unat (of_nat (56 + unat (w :: uint16) * kCueDefinitionSize) :: uint32)
     = 56 + unat w * kCueDefinitionSize"
  using unat_u16_bound [of w]
  apply (subst unat_of_nat)
  apply (simp add: kCueDefinitionSize_def)
  done

lemma constructor_D:
  assumes "XACTSoundBank_Binary C buf = Inr sb"
  shows "56 \<le> length buf \<and> u32be buf 0 = kXSBID \<and> u16le buf 4 = 11 \<and>
    (\<exists>nm sb1 p1 sb2 p2 p3.
       readWaveBanks buf (newSoundBank\<lparr>SoundBank.name := nm\<rparr>) (u32le buf 8)
         (ucast (u16le buf 34)) 56 = Inr (sb1, p1) \<and>
       readCues C buf sb1 (ucast (u16le buf 24)) 56 (ucast (u16le buf 30)) p1 = Inr (sb2, p2) \<and>
       readSounds C buf sb2 (of_nat (56 + unat (u16le buf 30) * kCueDefinitionSize))
         (ucast (u16le buf 28)) (u32le buf 16) p2 = Inr (sb, p3))"
proof -
  from assms obtain p' where l: "load C buf 0 = Inr (sb, p')"
    by (auto simp: XACTSoundBank_Binary_def split: sum.splits)
  from load_bound [OF l] have b: "56 \<le> length buf" by simp
  from l load_unfold [of 0 buf C] b show ?thesis
    apply (clarsimp simp: bindR_Inr split: if_splits)
    apply blast
    done
qed

lemma replicate_numeral_eval: "replicate (numeral k) x = x # replicate (pred_numeral k) x"
  by (simp add: numeral_eq_Suc)

lemmas eval_bank = eval_simps XACTSoundBank_Binary_def load_def readWaveBanks_def readWaveBank_def
  readCues_def readCue_def readCueVarations_def readCueVariationList.simps readCueVariation_def
  readSounds_def readSound_def read3DParams_def readTracks_def readTrack_def resize_def
  newSoundBank_def newWaveBank_def newCue_def newCueVariation_def newSound_def newTrack_def
  kXSBID_def kXSBNoCueNames_def kSound3D_def kSoundGainBoost_def kSoundEQ_def kSoundTrivial_def
  kSoundSimple_def k3DDefinitionSize_def kCueDefinitionSize_def kSoundDefinitionSize_def
  kTrackDefinitionSize_def replicate_numeral_eval

lemma readCueVariation_weights:
  "readCueVariation C buf v p = Inr (v', p') \<Longrightarrow>
     CueVariation.weightMin v' =
       min (CLIP (unat (u16le buf (p + 4))) (kWeightMinimum C) (kWeightMaximum C))
           (CLIP (unat (u16le buf (p + 6))) (kWeightMinimum C) (kWeightMaximum C)) \<and>
     CueVariation.weightMax v' =
       max (CLIP (unat (u16le buf (p + 4))) (kWeightMinimum C) (kWeightMaximum C))
           (CLIP (unat (u16le buf (p + 6))) (kWeightMinimum C) (kWeightMaximum C))"
proof -
  assume "readCueVariation C buf v p = Inr (v', p')"
  then have "v' =
     (let wmin = CLIP (unat (u16le buf (p + 4))) (kWeightMinimum C) (kWeightMaximum C);
          wmax = CLIP (unat (u16le buf (p + 6))) (kWeightMinimum C) (kWeightMaximum C)
      in if wmax < wmin
         then v\<lparr>soundIndex := unat (u16le buf p),
                CueVariation.weightMin := wmax, CueVariation.weightMax := wmin\<rparr>
         else v\<lparr>soundIndex := unat (u16le buf p),
                CueVariation.weightMin := wmin, CueVariation.weightMax := wmax\<rparr>)"
    by (clarsimp simp: readCueVariation_def reader_Inr numeral_add_pos Let_def
        simp del: add_2_eq_Suc' add_2_eq_Suc)
  then show ?thesis
    by (simp add: Let_def min_def max_def)
qed

lemma addWaveVariation_weights:
  "WaveVariation.weightMin (last (waves (addWaveVariation C banks track indices a b))) =
     min (CLIP (unat a) (kWeightMinimum C) (kWeightMaximum C))
         (CLIP (unat b) (kWeightMinimum C) (kWeightMaximum C)) \<and>
   WaveVariation.weightMax (last (waves (addWaveVariation C banks track indices a b))) =
     max (CLIP (unat a) (kWeightMinimum C) (kWeightMaximum C))
         (CLIP (unat b) (kWeightMinimum C) (kWeightMaximum C))"
  by (auto simp: addWaveVariation_def Let_def min_def max_def)

lemma constructor_weightsOK:
  assumes "kWeightMinimum C \<le> kWeightMaximum C" and "XACTSoundBank_Binary C buf = Inr sb"
  shows "weightsOK C sb"
proof -
  from constructor_D [OF assms(2)] obtain nm sb1 p1 sb2 p2 p3 where
    w: "readWaveBanks buf (newSoundBank\<lparr>SoundBank.name := nm\<rparr>) (u32le buf 8)
         (ucast (u16le buf 34)) 56 = Inr (sb1, p1)"
    and c: "readCues C buf sb1 (ucast (u16le buf 24)) 56 (ucast (u16le buf 30)) p1 = Inr (sb2, p2)"
    and s: "readSounds C buf sb2 (of_nat (56 + unat (u16le buf 30) * kCueDefinitionSize))
         (ucast (u16le buf 28)) (u32le buf 16) p2 = Inr (sb, p3)"
    by blast
  from readWaveBanks_frame [OF w] have "weightsOK C sb1"
    by (simp add: weightsOK_def newSoundBank_def)
  from readCues_OK [OF c assms(1) this] have "weightsOK C sb2" by simp
  from readSounds_OK [OF s assms(1) this] show ?thesis by simp
qed

subsection \<open>Wave variations come from their records\<close>

lemma loopR_upt:
  assumes "loopR body [k..<n] s p = Inr (s', p')" and "k \<le> n" and "I k s"
    and "\<And>i s p s' p'. k \<le> i \<Longrightarrow> i < n \<Longrightarrow> I i s \<Longrightarrow> body i s p = Inr (s', p') \<Longrightarrow> I (Suc i) s'"
  shows "I n s'"
  using assms
proof (induction "n - k" arbitrary: k s p)
  case 0
  then show ?case by (simp add: returnR_Inr)
next
  case (Suc d)
  then have kn: "k < n" by simp
  then have u: "[k..<n] = k # [Suc k..<n]" by (simp add: upt_conv_Cons)
  from Suc.prems(1) [unfolded u] obtain s1 p1 where
    b: "body k s p = Inr (s1, p1)" and l: "loopR body [Suc k..<n] s1 p1 = Inr (s', p')"
    by (auto simp: bindR_Inr)
  have i1: "I (Suc k) s1"
    using Suc.prems(4) [of k s p s1 p1] kn Suc.prems(3) b by simp
  show ?case
  proof (rule Suc.hyps(1) [OF _ l _ i1])
    show "d = n - Suc k" using Suc.hyps(2) by simp
    show "Suc k \<le> n" using kn by simp
  next
    fix i t q t' q'
    assume "Suc k \<le> i" "i < n" "I i t" "body i t q = Inr (t', q')"
    then show "I (Suc i) t'" using Suc.prems(4) [of i t q t' q'] by simp
  qed
qed

lemma readSounds_frame:
  assumes "readSounds C buf sb offset count offset3DParams p = Inr (sb', p')"
  shows "cues sb' = cues sb \<and> cueMap sb' = cueMap sb \<and> waveBanks sb' = waveBanks sb \<and>
         waveBankMap sb' = waveBankMap sb"
proof (rule loopR_invariant [OF assms [unfolded readSounds_def]])
  show "cues (sb\<lparr>sounds := resize newSound (unat count) (sounds sb)\<rparr>) = cues sb \<and>
    cueMap (sb\<lparr>sounds := resize newSound (unat count) (sounds sb)\<rparr>) = cueMap sb \<and>
    waveBanks (sb\<lparr>sounds := resize newSound (unat count) (sounds sb)\<rparr>) = waveBanks sb \<and>
    waveBankMap (sb\<lparr>sounds := resize newSound (unat count) (sounds sb)\<rparr>) = waveBankMap sb"
    by simp
next
  fix i s q s' q'
  assume "cues s = cues sb \<and> cueMap s = cueMap sb \<and> waveBanks s = waveBanks sb \<and>
         waveBankMap s = waveBankMap sb"
    and "readSound C buf offset offset3DParams i s q = Inr (s', q')"
  then show "cues s' = cues sb \<and> cueMap s' = cueMap sb \<and> waveBanks s' = waveBanks sb \<and>
         waveBankMap s' = waveBankMap sb"
    using readSound_D [of C buf offset offset3DParams i s q s' q'] by auto
qed

lemma loopR_upt_pos:
  assumes "loopR body [k..<n] s p = Inr (s', p')" and "k \<le> n" and "I k s p"
    and "\<And>i s p s' p'. k \<le> i \<Longrightarrow> i < n \<Longrightarrow> I i s p \<Longrightarrow> body i s p = Inr (s', p') \<Longrightarrow> I (Suc i) s' p'"
  shows "I n s' p'"
  using assms
proof (induction "n - k" arbitrary: k s p)
  case 0
  then show ?case by (simp add: returnR_Inr)
next
  case (Suc d)
  then have kn: "k < n" by simp
  then have u: "[k..<n] = k # [Suc k..<n]" by (simp add: upt_conv_Cons)
  from Suc.prems(1) [unfolded u] obtain s1 p1 where
    b: "body k s p = Inr (s1, p1)" and l: "loopR body [Suc k..<n] s1 p1 = Inr (s', p')"
    by (auto simp: bindR_Inr)
  have i1: "I (Suc k) s1 p1"
    using Suc.prems(4) [of k s p s1 p1] kn Suc.prems(3) b by simp
  show ?case
  proof (rule Suc.hyps(1) [OF _ l _ i1])
    show "d = n - Suc k" using Suc.hyps(2) by simp
    show "Suc k \<le> n" using kn by simp
  next
    fix i t q t' q'
    assume "Suc k \<le> i" "i < n" "I i t q" "body i t q = Inr (t', q')"
    then show "I (Suc i) t' q'" using Suc.prems(4) [of i t q t' q'] by simp
  qed
qed

lemma addWaveVariation_wave:
  "\<exists>w. waves (addWaveVariation C banks track indices a b) = waves track @ [w] \<and>
        waveOfIndices banks indices w"
  by (simp add: addWaveVariation_def Let_def waveOfIndices_def newWaveVariation_def)

lemma list_all2_upt_snoc:
  "list_all2 P [0..<m] ws \<Longrightarrow> P m w \<Longrightarrow> list_all2 P [0..<Suc m] (ws @ [w])"
  by (simp add: list_all2_appendI)

lemma readWaveVariations_waves:
  assumes "readWaveVariations C buf banks track offset p = Inr (track', p')"
  shows "\<exists>ws. waves track' = waves track @ ws \<and> tableWaves buf banks offset ws"
proof -
  define n where "n = unat (fst (variationFields (u32le buf (unat offset))))"
  obtain cnt cur sm fl where vf: "variationFields (u32le buf (unat offset)) = (cnt, cur, sm, fl)"
    by (cases "variationFields (u32le buf (unat offset))") auto
  from assms vf have
    l: "loopR (\<lambda>i. readWaveVariation C buf banks) [0..<n]
          (track\<lparr>Track.variationSelectMethod := Some sm\<rparr>) (unat offset + 4) = Inr (track', p')"
    by (auto simp: readWaveVariations_def reader_Inr readVariationData_Inr n_def)
  define I where "I = (\<lambda>m (t::Track) q. q = unat offset + 4 + 8 * m \<and>
     (\<exists>ws. waves t = waves track @ ws \<and>
        list_all2 (\<lambda>k w. waveOfIndices banks (u32le buf (unat offset + 4 + 8 * k)) w) [0..<m] ws))"
  have "I n track' p'"
  proof (rule loopR_upt_pos [OF l])
    show "0 \<le> n" by simp
    show "I 0 (track\<lparr>Track.variationSelectMethod := Some sm\<rparr>) (unat offset + 4)"
      by (simp add: I_def)
  next
    fix i s q s' q'
    assume inv: "I i s q" and b: "readWaveVariation C buf banks s q = Inr (s', q')"
    from inv obtain ws where q: "q = unat offset + 4 + 8 * i" and w: "waves s = waves track @ ws"
      and a: "list_all2 (\<lambda>k w. waveOfIndices banks (u32le buf (unat offset + 4 + 8 * k)) w) [0..<i] ws"
      by (auto simp: I_def)
    from b have q': "q' = q + 8" and s': "s' = addWaveVariation C banks s (u32le buf q)
             (ucast (u16le buf (q + 4))) (ucast (u16le buf (q + 6)))"
      by (simp_all add: readWaveVariation_Inr)
    from addWaveVariation_wave [of C banks s "u32le buf q"] s' obtain x where
      x: "waves s' = waves s @ [x]" and o: "waveOfIndices banks (u32le buf q) x"
      by blast
    have "list_all2 (\<lambda>k w. waveOfIndices banks (u32le buf (unat offset + 4 + 8 * k)) w)
            [0..<Suc i] (ws @ [x])"
      using a o q by (intro list_all2_upt_snoc) simp_all
    with x w q q' show "I (Suc i) s' q'"
      by (auto simp: I_def)
  qed
  then show ?thesis by (auto simp: I_def tableWaves_def n_def)
qed

lemma eventPlay_wave:
  "eventPlay C buf banks ps fl (wo, tr, so) p = Inr (((wo', tr', so'), ps'), p') \<Longrightarrow>
     4 \<le> ps \<Longrightarrow> fl AND kPlayEventMultipleVariations = 0 \<Longrightarrow>
     \<exists>w. waves tr' = waves tr @ [w] \<and> waveOfIndices banks (u32le buf (p + 2)) w"
  using addWaveVariation_wave
    [of C banks "tr\<lparr>Track.variationSelectMethod := Some (kSelectMethodOrdered C)\<rparr>"
       "u32le buf (p + 2)" "of_nat (kWeightMinimum C)" "of_nat (kWeightMaximum C)"]
  by (auto simp: eventPlay_def reader_Inr numeral_add_pos split: if_splits prod.splits)

lemma readEvent_wave:
  assumes "readEvent C buf banks (wo, tr, so) p = Inr ((wo', tr', so'), p')"
  shows "if directPlay C buf p
         then \<exists>w. waves tr' = waves tr @ [w] \<and> waveOfIndices banks (u32le buf (p + 8)) w
         else waves tr' = waves tr"
proof -
  from assms obtain tr1 ps' p1 where
    sw: "eventSwitch C buf banks (buf ! p) (buf ! (p + 4)) (buf ! (p + 5)) (wo, tr1, so) (p + 6)
           = Inr (((wo', tr', so'), ps'), p1)"
    and w: "waves tr1 = waves tr"
    by (auto simp: readEvent_def reader_Inr numeral_add_pos)
  show ?thesis
  proof (cases "directPlay C buf p")
    case True
    then have t: "buf ! p = kEventTypePlay C \<or> buf ! p = kEventTypePlayComplex C"
      and ps: "4 \<le> buf ! (p + 4)" and f: "buf ! (p + 5) AND kPlayEventMultipleVariations = 0"
      by (simp_all add: directPlay_def isPlayEvent_def)
    from sw t have "eventPlay C buf banks (buf ! (p + 4)) (buf ! (p + 5)) (wo, tr1, so) (p + 6)
           = Inr (((wo', tr', so'), ps'), p1)"
      by (simp add: eventSwitch_def)
    from eventPlay_wave [OF this ps f] w True show ?thesis
      by (simp add: numeral_add_pos)
  next
    case False
    with eventSwitch_effect [OF sw] w show ?thesis
      by (auto simp: directPlay_def isPlayEvent_def split: if_splits)
  qed
qed

lemma readEvents_waves:
  "loopR (\<lambda>i. readEvent C buf banks) js (wo, tr, so) p = Inr ((wo', tr', so'), p') \<Longrightarrow>
     \<exists>D. waves tr' = waves tr @ D \<and>
         list_all2 (\<lambda>q w. waveOfIndices banks (u32le buf (q + 8)) w)
           (filter (directPlay C buf) (eventStarts buf p (length js))) D"
proof (induction js arbitrary: wo tr so p)
  case Nil
  then show ?case by (simp add: returnR_Inr)
next
  case (Cons j js)
  from Cons.prems obtain wo1 tr1 so1 p1 where
    e: "readEvent C buf banks (wo, tr, so) p = Inr ((wo1, tr1, so1), p1)"
    and l: "loopR (\<lambda>i. readEvent C buf banks) js (wo1, tr1, so1) p1 = Inr ((wo', tr', so'), p')"
    by (auto simp: bindR_Inr)
  have p1: "p1 = p + 8 + unat (buf ! (p + 4))"
    by (rule readEvent_stride(1) [OF e])
  from Cons.IH [OF l] obtain D where
    d: "waves tr' = waves tr1 @ D"
    and a: "list_all2 (\<lambda>q w. waveOfIndices banks (u32le buf (q + 8)) w)
           (filter (directPlay C buf) (eventStarts buf p1 (length js))) D"
    by blast
  show ?case
  proof (cases "directPlay C buf p")
    case True
    with readEvent_wave [OF e] obtain w where
      w: "waves tr1 = waves tr @ [w]" and o: "waveOfIndices banks (u32le buf (p + 8)) w"
      by auto
    from d w a o True p1 show ?thesis
      by (intro exI [of _ "w # D"]) simp
  next
    case False
    with readEvent_wave [OF e] have "waves tr1 = waves tr" by simp
    with d a False p1 show ?thesis
      by (intro exI [of _ D]) simp
  qed
qed

lemma readComplexTrack_waves:
  assumes "readComplexTrack C buf banks track sound p = Inr ((track2, sound2), p2)"
  shows "\<exists>ws. waves track2 = waves track @ ws \<and> complexTrackWaves C buf banks p ws"
proof -
  define starts where "starts = eventStarts buf (unat (drop_bit 8 (u32le buf p)))
                      (unat (ucast (u32le buf p AND 0xFF) :: uint8))"
  define wo where "wo = last (0xFFFFFFFF # List.map_filter (deferredOffset C buf) starts)"
  from readComplexTrack_deferred [OF assms] obtain track1 p1 where
    l: "loopR (\<lambda>i. readEvent C buf banks)
             [0..<unat (ucast (u32le buf p AND 0xFF) :: uint8)] (0xFFFFFFFF, track, sound)
             (unat (drop_bit 8 (u32le buf p))) = Inr ((wo, track1, sound2), p1)"
    and r: "if wo \<noteq> 0xFFFFFFFF
            then readWaveVariations C buf banks track1 wo p1 = Inr (track2, p2)
            else track2 = track1 \<and> p2 = p1"
    unfolding wo_def starts_def by blast
  from readEvents_waves [OF l] obtain D where
    d: "waves track1 = waves track @ D"
    and a: "list_all2 (\<lambda>q w. waveOfIndices banks (u32le buf (q + 8)) w)
           (filter (directPlay C buf) starts) D"
    by (auto simp: starts_def)
  from a have len: "length (filter (directPlay C buf) starts) = length D"
    by (rule list_all2_lengthD)
  show ?thesis
  proof (cases "wo \<noteq> 0xFFFFFFFF")
    case True
    with r readWaveVariations_waves [of C buf banks track1 wo p1 track2 p2] obtain T where
      "waves track2 = waves track1 @ T" and "tableWaves buf banks wo T"
      by auto
    with d a True len show ?thesis
      unfolding complexTrackWaves_def Let_def starts_def [symmetric] wo_def [symmetric]
      by (intro exI [of _ "D @ T"]) simp
  next
    case False
    with r d a len show ?thesis
      unfolding complexTrackWaves_def Let_def starts_def [symmetric] wo_def [symmetric]
      by (intro exI [of _ "D"]) simp
  qed
qed

lemma eventPlay_tracks:
  "eventPlay C buf banks ps fl (wo, tr, so) p = Inr (((wo', tr', so'), ps'), p') \<Longrightarrow>
     tracks so' = tracks so"
  by (auto simp: eventPlay_def reader_Inr split: if_splits prod.splits)

lemma eventSwitch_tracks:
  assumes "eventSwitch C buf banks t ps fl (wo, tr, so) p = Inr (((wo', tr', so'), ps'), p')"
  shows "tracks so' = tracks so"
proof (cases "t = kEventTypePlay C \<or> t = kEventTypePlayComplex C")
  case True
  with assms show ?thesis by (auto simp: eventSwitch_def dest: eventPlay_tracks)
next
  case False
  with assms have "so' = so"
    by (auto simp: eventSwitch_def eventPitch_def eventVolume_def eventLowPass_def
        eventLFOMulti_def eventLoop_def eventMarker_def eventDefault_def reader_Inr Let_def
        split: if_splits)
  then show ?thesis by simp
qed

lemma readEvent_tracks:
  assumes "readEvent C buf banks (wo, tr, so) p = Inr ((wo', tr', so'), p')"
  shows "tracks so' = tracks so"
proof -
  from assms obtain tr1 t ps fl ps' p0 p1 where
    sw: "eventSwitch C buf banks t ps fl (wo, tr1, so) p0 = Inr (((wo', tr', so'), ps'), p1)"
    by (auto simp: readEvent_def reader_Inr)
  from eventSwitch_tracks [OF sw] show ?thesis .
qed

lemma readEvents_tracks:
  "loopR (\<lambda>i. readEvent C buf banks) js (wo, tr, so) p = Inr ((wo', tr', so'), p') \<Longrightarrow>
     tracks so' = tracks so"
proof (induction js arbitrary: wo tr so p)
  case Nil
  then show ?case by (simp add: returnR_Inr)
next
  case (Cons j js)
  from Cons.prems obtain wo1 tr1 so1 p1 where
    e: "readEvent C buf banks (wo, tr, so) p = Inr ((wo1, tr1, so1), p1)"
    and l: "loopR (\<lambda>i. readEvent C buf banks) js (wo1, tr1, so1) p1 = Inr ((wo', tr', so'), p')"
    by (auto simp: bindR_Inr)
  from Cons.IH [OF l] readEvent_tracks [OF e] show ?case by simp
qed

lemma readComplexTrack_tracks:
  assumes "readComplexTrack C buf banks track sound p = Inr ((track', sound'), p')"
  shows "tracks sound' = tracks sound"
proof -
  from readComplexTrack_deferred [OF assms] obtain wo track1 p1 js q where
    "loopR (\<lambda>i. readEvent C buf banks) js (0xFFFFFFFF, track, sound) q
       = Inr ((wo, track1, sound'), p1)"
    by blast
  from readEvents_tracks [OF this] show ?thesis .
qed

lemma readTrack_waves:
  assumes "readTrack C buf banks indicesOrOffset i sound p = Inr (sound', p')"
    and "i < length (tracks sound)"
  shows "length (tracks sound') = length (tracks sound)"
    and "\<forall>j. j \<noteq> i \<longrightarrow> tracks sound' ! j = tracks sound ! j"
    and "\<exists>ws. waves (tracks sound' ! i) = waves (tracks sound ! i) @ ws \<and>
           complexTrackWaves C buf banks (unat indicesOrOffset + i * kTrackDefinitionSize) ws"
proof -
  from assms(1) obtain track sound1 where
    c: "readComplexTrack C buf banks (tracks sound ! i) sound
          (unat indicesOrOffset + i * kTrackDefinitionSize) = Inr ((track, sound1), p')"
    and s: "sound' = sound1\<lparr>tracks := (tracks sound1)[i := track]\<rparr>"
    by (auto simp: readTrack_def reader_Inr)
  note t = readComplexTrack_tracks [OF c]
  from s t show "length (tracks sound') = length (tracks sound)" by simp
  from s t show "\<forall>j. j \<noteq> i \<longrightarrow> tracks sound' ! j = tracks sound ! j" by simp
  from readComplexTrack_waves [OF c] s t assms(2)
  show "\<exists>ws. waves (tracks sound' ! i) = waves (tracks sound ! i) @ ws \<and>
           complexTrackWaves C buf banks (unat indicesOrOffset + i * kTrackDefinitionSize) ws"
    by simp
qed

lemma list_all2_upt_nth:
  "list_all2 P [0..<n] xs = (length xs = n \<and> (\<forall>j < n. P j (xs ! j)))"
  by (auto simp: list_all2_conv_all_nth)

lemma readTracks_waves:
  assumes "readTracks C buf banks sound indicesOrOffset count flags p = Inr (sound', p')"
    and "tracks sound = []"
  shows "soundWaves C buf banks indicesOrOffset count flags sound'"
proof -
  define sound1 where "sound1 = sound\<lparr>tracks := resize newTrack (unat count) (tracks sound)\<rparr>"
  have t1: "tracks sound1 = replicate (unat count) newTrack"
    by (simp add: sound1_def resize_def assms(2))
  have c1: "flags AND (kSoundTrivial OR kSoundSimple) \<noteq> 0 \<Longrightarrow> count = 1"
    using assms(1) by (auto simp: readTracks_def throwR_Inr split: if_splits)
  show ?thesis
  proof (cases "flags AND kSoundTrivial \<noteq> 0")
    case True
    then have "flags AND (kSoundTrivial OR kSoundSimple) \<noteq> 0"
      by (metis bit.conj_disj_distrib or_eq_0_iff)
    with c1 have c: "count = 1" by simp
    from addWaveVariation_wave
      [of C banks "newTrack\<lparr>Track.variationSelectMethod := Some (kSelectMethodOrdered C)\<rparr>"
          indicesOrOffset "of_nat (kWeightMinimum C)" "of_nat (kWeightMaximum C)"]
    have w: "list_all2 (waveOfIndices banks) [indicesOrOffset] (waves (addWaveVariation C banks
            (newTrack\<lparr>Track.variationSelectMethod := Some (kSelectMethodOrdered C)\<rparr>)
            indicesOrOffset (of_nat (kWeightMinimum C)) (of_nat (kWeightMaximum C))))"
      by (auto simp: newTrack_def)
    have r: "resize newTrack (Suc 0) (tracks sound) = [newTrack]"
      by (simp add: resize_def assms(2))
    from True c assms(1) have
      "sound' = sound\<lparr>tracks := [(addWaveVariation C banks
            (newTrack\<lparr>Track.variationSelectMethod := Some (kSelectMethodOrdered C)\<rparr>)
            indicesOrOffset (of_nat (kWeightMinimum C)) (of_nat (kWeightMaximum C)))
            \<lparr>events := events (addWaveVariation C banks
            (newTrack\<lparr>Track.variationSelectMethod := Some (kSelectMethodOrdered C)\<rparr>)
            indicesOrOffset (of_nat (kWeightMinimum C)) (of_nat (kWeightMaximum C)))
              @ [newEvent (kEventTypePlay C)]\<rparr>]\<rparr>"
      by (simp add: readTracks_def Let_def returnR_Inr r)
    with True c w show ?thesis
      by (simp add: soundWaves_def)
  next
    case False
    note nt = this
    show ?thesis
    proof (cases "flags AND kSoundSimple \<noteq> 0")
      case True
      then have "flags AND (kSoundTrivial OR kSoundSimple) \<noteq> 0"
        by (metis bit.conj_disj_distrib or_eq_0_iff)
      with c1 have c: "count = 1" by simp
      have r: "resize newTrack (Suc 0) (tracks sound) = [newTrack]"
        by (simp add: resize_def assms(2))
      from True nt c assms(1) obtain track where
        w: "readWaveVariations C buf banks newTrack indicesOrOffset p = Inr (track, p')"
        and s: "sound' = sound\<lparr>tracks :=
                  [track\<lparr>events := events track @ [newEvent (kEventTypePlay C)]\<rparr>]\<rparr>"
        by (auto simp: readTracks_def Let_def reader_Inr r)
      from readWaveVariations_waves [OF w] have "tableWaves buf banks indicesOrOffset (waves track)"
        by (auto simp: newTrack_def)
      with True nt c s show ?thesis
        by (simp add: soundWaves_def)
    next
      case False
      with nt assms(1) have
        l: "loopR (readTrack C buf banks indicesOrOffset) [0..<unat count] sound1 p = Inr (sound', p')"
        by (auto simp: readTracks_def Let_def throwR_Inr sound1_def [symmetric] split: if_splits)
      define I where "I = (\<lambda>m (s::Sound). length (tracks s) = unat count \<and>
        (\<forall>j. m \<le> j \<and> j < unat count \<longrightarrow> tracks s ! j = newTrack) \<and>
        (\<forall>j < m. complexTrackWaves C buf banks (unat indicesOrOffset + j * kTrackDefinitionSize)
                    (waves (tracks s ! j))))"
      have "I (unat count) sound'"
      proof (rule loopR_upt [OF l])
        show "0 \<le> unat count" by simp
        show "I 0 sound1" by (simp add: I_def t1)
      next
        fix i s q s' q'
        assume i: "i < unat count" and inv: "I i s"
          and b: "readTrack C buf banks indicesOrOffset i s q = Inr (s', q')"
        from inv i have len: "i < length (tracks s)" and new: "tracks s ! i = newTrack"
          by (simp_all add: I_def)
        note e = readTrack_waves [OF b len]
        have a: "complexTrackWaves C buf banks (unat indicesOrOffset + i * kTrackDefinitionSize)
                   (waves (tracks s' ! i))"
          using e(3) new by (auto simp: newTrack_def)
        have o: "\<And>j. j \<noteq> i \<Longrightarrow> tracks s' ! j = tracks s ! j"
          using e(2) by simp
        show "I (Suc i) s'"
          unfolding I_def
        proof (intro conjI allI impI)
          show "length (tracks s') = unat count" using e(1) inv by (simp add: I_def)
        next
          fix j assume "Suc i \<le> j \<and> j < unat count"
          then show "tracks s' ! j = newTrack" using o [of j] inv by (simp add: I_def)
        next
          fix j assume "j < Suc i"
          then show "complexTrackWaves C buf banks (unat indicesOrOffset + j * kTrackDefinitionSize)
                  (waves (tracks s' ! j))"
            using a o [of j] inv by (cases "j = i") (simp_all add: I_def)
        qed
      qed
      with False nt show ?thesis
        by (simp add: soundWaves_def I_def list_all2_upt_nth)
    qed
  qed
qed

lemma readWaveBanks_names:
  assumes "readWaveBanks buf sb offset count p = Inr (sb', p')"
  shows "\<forall>k < unat count. WaveBank.name (waveBanks sb' ! k) =
           takeWhile (\<lambda>b. b \<noteq> 0) (take 16 (drop (unat offset + 16 * k) buf))"
proof -
  from assms have
    l: "loopR (readWaveBank buf) [0..<unat count]
          (sb\<lparr>waveBanks := resize newWaveBank (unat count) (waveBanks sb)\<rparr>) (unat offset)
          = Inr (sb', p')"
    by (auto simp: readWaveBanks_def reader_Inr)
  define I where "I = (\<lambda>m (s::SoundBank) q. q = unat offset + 16 * m \<and>
    length (waveBanks s) = unat count \<and>
    (\<forall>k < m. WaveBank.name (waveBanks s ! k) =
           takeWhile (\<lambda>b. b \<noteq> 0) (take 16 (drop (unat offset + 16 * k) buf))))"
  have "I (unat count) sb' p'"
  proof (rule loopR_upt_pos [OF l])
    show "0 \<le> unat count" by simp
    show "I 0 (sb\<lparr>waveBanks := resize newWaveBank (unat count) (waveBanks sb)\<rparr>) (unat offset)"
      by (simp add: I_def length_resize)
  next
    fix i s q s' q'
    assume i: "i < unat count" and inv: "I i s q"
      and b: "readWaveBank buf i s q = Inr (s', q')"
    from b have s': "s' = s\<lparr>waveBanks := (waveBanks s)
          [i := (waveBanks s ! i)\<lparr>WaveBank.name :=
             takeWhile (\<lambda>b. b \<noteq> 0) (take 16 (drop q buf))\<rparr>],
          waveBankMap := (waveBankMap s)(takeWhile (\<lambda>b. b \<noteq> 0) (take 16 (drop q buf)) \<mapsto> i)\<rparr>"
      and q': "q' = q + 16"
      by (auto simp: readWaveBank_def bindR_Inr returnR_Inr readStringFixed_def split: if_splits)
    show "I (Suc i) s' q'"
      unfolding I_def
    proof (intro conjI allI impI)
      show "q' = unat offset + 16 * Suc i" using q' inv by (simp add: I_def)
      show "length (waveBanks s') = unat count" using s' inv by (simp add: I_def)
    next
      fix k assume "k < Suc i"
      then show "WaveBank.name (waveBanks s' ! k) =
           takeWhile (\<lambda>b. b \<noteq> 0) (take 16 (drop (unat offset + 16 * k) buf))"
        using s' inv i by (cases "k = i") (simp_all add: I_def)
    qed
  qed
  then show ?thesis by (simp add: I_def)
qed

lemma readCue_frame:
  assumes "readCue C buf xsbFlags offset i sb p = Inr (sb', p')"
  defines "r \<equiv> unat offset + i * kCueDefinitionSize"
  shows "sounds sb' = sounds sb \<and> waveBanks sb' = waveBanks sb"
proof -
  note u = readCue_unfold [OF readCue_bound [OF assms(1)], of C xsbFlags sb p]
  from assms(1) [unfolded u] obtain sb1 q where
    n: "(if xsbFlags AND kXSBNoCueNames = 0 \<and> u32le buf (r + 4) \<noteq> 0xFFFFFFFF
         then bindR (seek buf (unat (u32le buf (r + 4)))) (\<lambda>_.
              bindR (readString buf) (\<lambda>nm.
                returnR (sb\<lparr>cues := (cues sb)[i := (cues sb ! i)\<lparr>Cue.name := nm\<rparr>],
                            cueMap := (cueMap sb)(nm \<mapsto> i)\<rparr>)))
         else returnR sb) (r + 20) = Inr (sb1, q)"
    and v: "(if u32le buf (r + 8) \<noteq> 0xFFFFFFFF
       then bindR (readCueVarations C buf (cues sb1 ! i) (u32le buf (r + 8))) (\<lambda>cue.
              returnR (sb1\<lparr>cues := (cues sb1)[i := cue]\<rparr>))
       else if u16le buf (r + 2) \<noteq> 0xFFFF
       then returnR
              (sb1\<lparr>cues := (cues sb1)[i := (cues sb1 ! i)
                 \<lparr>Cue.variationSelectMethod := Some (kSelectMethodOrdered C),
                  variations :=
                    modifyBack
                      (\<lambda>v. v\<lparr>soundIndex := unat (u16le buf (r + 2)),
                              CueVariation.weightMin := kWeightMinimum C,
                              CueVariation.weightMax := kWeightMaximum C\<rparr>)
                      (resize newCueVariation 1 (variations (cues sb1 ! i)))\<rparr>]\<rparr>)
       else returnR sb1) q = Inr (sb', p')"
    unfolding r_def by (auto simp: bindR_Inr)
  from n have 1: "sounds sb1 = sounds sb \<and> waveBanks sb1 = waveBanks sb"
    by (auto simp: reader_Inr split: if_splits)
  from v have 2: "sounds sb' = sounds sb1 \<and> waveBanks sb' = waveBanks sb1"
    by (auto simp: reader_Inr split: if_splits)
  from 1 2 show ?thesis by simp
qed

lemma readCues_frame:
  assumes "readCues C buf sb xsbFlags offset count p = Inr (sb', p')"
  shows "sounds sb' = sounds sb \<and> waveBanks sb' = waveBanks sb"
proof (rule loopR_invariant [OF assms [unfolded readCues_def]])
  show "sounds (sb\<lparr>cues := resize newCue (unat count) (cues sb)\<rparr>) = sounds sb \<and>
    waveBanks (sb\<lparr>cues := resize newCue (unat count) (cues sb)\<rparr>) = waveBanks sb"
    by simp
next
  fix i s q s' q'
  assume "sounds s = sounds sb \<and> waveBanks s = waveBanks sb"
    and "readCue C buf xsbFlags offset i s q = Inr (s', q')"
  then show "sounds s' = sounds sb \<and> waveBanks s' = waveBanks sb"
    using readCue_frame [of C buf xsbFlags offset i s q s' q'] by simp
qed

lemma readSounds_waves:
  assumes "readSounds C buf sb offset count offset3DParams p = Inr (sb', p')"
    and "sounds sb = []"
  shows "length (sounds sb') = unat count \<and>
     (\<forall>i < unat count.
        soundWaves C buf (waveBanks sb)
          (u32le buf (unat offset + i * kSoundDefinitionSize))
          (ucast (buf ! (unat offset + i * kSoundDefinitionSize + 8)))
          (buf ! (unat offset + i * kSoundDefinitionSize + 11)) (sounds sb' ! i))"
proof -
  define I where "I = (\<lambda>m (s::SoundBank). length (sounds s) = unat count \<and>
    waveBanks s = waveBanks sb \<and>
    (\<forall>j. m \<le> j \<and> j < unat count \<longrightarrow> tracks (sounds s ! j) = []) \<and>
    (\<forall>j < m. soundWaves C buf (waveBanks sb)
          (u32le buf (unat offset + j * kSoundDefinitionSize))
          (ucast (buf ! (unat offset + j * kSoundDefinitionSize + 8)))
          (buf ! (unat offset + j * kSoundDefinitionSize + 11)) (sounds s ! j)))"
  have "I (unat count) sb'"
  proof (rule loopR_upt [OF assms(1) [unfolded readSounds_def]])
    show "0 \<le> unat count" by simp
    show "I 0 (sb\<lparr>sounds := resize newSound (unat count) (sounds sb)\<rparr>)"
      by (simp add: I_def resize_def assms(2) newSound_def)
  next
    fix i s q s' q'
    assume i: "i < unat count" and inv: "I i s"
      and b: "readSound C buf offset offset3DParams i s q = Inr (s', q')"
    from readSound_D [OF b] obtain sound2 q2 sound3 where
      t: "tracks sound2 = tracks (sounds s ! i)"
      and r: "readTracks C buf (waveBanks s) sound2
                (u32le buf (unat offset + i * kSoundDefinitionSize))
                (ucast (buf ! (unat offset + i * kSoundDefinitionSize + 8)))
                (buf ! (unat offset + i * kSoundDefinitionSize + 11)) q2 = Inr (sound3, q')"
      and s': "s' = s\<lparr>sounds := (sounds s)[i := sound3]\<rparr>"
      by blast
    from inv i t have e: "tracks sound2 = []" by (simp add: I_def)
    from inv have wb: "waveBanks s = waveBanks sb" by (simp add: I_def)
    note a = readTracks_waves [OF r e, unfolded wb]
    show "I (Suc i) s'"
      unfolding I_def
    proof (intro conjI allI impI)
      show "length (sounds s') = unat count" using s' inv by (simp add: I_def)
      show "waveBanks s' = waveBanks sb" using s' wb by simp
    next
      fix j assume "Suc i \<le> j \<and> j < unat count"
      then show "tracks (sounds s' ! j) = []" using s' inv by (simp add: I_def)
    next
      fix j assume "j < Suc i"
      then show "soundWaves C buf (waveBanks sb)
          (u32le buf (unat offset + j * kSoundDefinitionSize))
          (ucast (buf ! (unat offset + j * kSoundDefinitionSize + 8)))
          (buf ! (unat offset + j * kSoundDefinitionSize + 11)) (sounds s' ! j)"
        using a s' inv i by (cases "j = i") (simp_all add: I_def)
    qed
  qed
  then show ?thesis by (simp add: I_def)
qed

lemma constructor_waves:
  assumes "XACTSoundBank_Binary C buf = Inr sb"
  shows "length (waveBanks sb) = unat (u16le buf 34)"
    and "\<forall>k < unat (u16le buf 34). WaveBank.name (waveBanks sb ! k) =
           takeWhile (\<lambda>b. b \<noteq> 0) (take 16 (drop (unat (u32le buf 8) + 16 * k) buf))"
    and "length (sounds sb) = unat (u16le buf 28)"
    and "\<forall>i < unat (u16le buf 28).
        soundWaves C buf (waveBanks sb)
          (u32le buf (56 + unat (u16le buf 30) * kCueDefinitionSize + i * kSoundDefinitionSize))
          (ucast (buf ! (56 + unat (u16le buf 30) * kCueDefinitionSize
                           + i * kSoundDefinitionSize + 8)))
          (buf ! (56 + unat (u16le buf 30) * kCueDefinitionSize + i * kSoundDefinitionSize + 11))
          (sounds sb ! i)"
proof -
  from constructor_D [OF assms] obtain nm sb1 p1 sb2 p2 p3 where
    w: "readWaveBanks buf (newSoundBank\<lparr>SoundBank.name := nm\<rparr>) (u32le buf 8)
         (ucast (u16le buf 34)) 56 = Inr (sb1, p1)"
    and c: "readCues C buf sb1 (ucast (u16le buf 24)) 56 (ucast (u16le buf 30)) p1 = Inr (sb2, p2)"
    and s: "readSounds C buf sb2 (of_nat (56 + unat (u16le buf 30) * kCueDefinitionSize))
         (ucast (u16le buf 28)) (u32le buf 16) p2 = Inr (sb, p3)"
    by blast
  note f1 = readWaveBanks_frame [OF w]
  note f2 = readCues_frame [OF c]
  note f3 = readSounds_frame [OF s]
  from f1 f2 have e: "sounds sb2 = []" by (simp add: newSoundBank_def)
  from f2 f3 have b: "waveBanks sb = waveBanks sb1" "waveBanks sb2 = waveBanks sb" by simp_all
  from f1 b show "length (waveBanks sb) = unat (u16le buf 34)"
    by (simp add: unat_ucast_16_32)
  from readWaveBanks_names [OF w] b
  show "\<forall>k < unat (u16le buf 34). WaveBank.name (waveBanks sb ! k) =
           takeWhile (\<lambda>b. b \<noteq> 0) (take 16 (drop (unat (u32le buf 8) + 16 * k) buf))"
    by (simp add: unat_ucast_16_32)
  from readSounds_waves [OF s e] show "length (sounds sb) = unat (u16le buf 28)"
    by (simp add: unat_ucast_16_32)
  from readSounds_waves [OF s e, unfolded unat_offsetSounds unat_ucast_16_32] b
  show "\<forall>i < unat (u16le buf 28).
        soundWaves C buf (waveBanks sb)
          (u32le buf (56 + unat (u16le buf 30) * kCueDefinitionSize + i * kSoundDefinitionSize))
          (ucast (buf ! (56 + unat (u16le buf 30) * kCueDefinitionSize
                           + i * kSoundDefinitionSize + 8)))
          (buf ! (56 + unat (u16le buf 30) * kCueDefinitionSize + i * kSoundDefinitionSize + 11))
          (sounds sb ! i)"
    by simp
qed

lemma exampleWaveBank_decodes:
  "map_sum id (\<lambda>sb. (map WaveBank.name (waveBanks sb),
        map (\<lambda>s. map (\<lambda>t. map (\<lambda>w. (bank w, index w)) (waves t)) (tracks s)) (sounds sb)))
     (XACTSoundBank_Binary exampleConsts exampleWaveBank) =
   Inr ([[0x41, 0x42]],
        [[[([0x41, 0x42], 7)]], [[([], 7)]], [[([0x41, 0x42], 3), ([], 9)]]])"
  by (simp add: eval_bank exampleWaveBank_def Let_def upt_rec del: loopR.simps)

lemma readEvent_succeeds_iff:
  "succeeds (readEvent C buf banks st p) = (p + 8 + unat (buf ! (p + 4)) \<le> length buf)"
proof
  assume "succeeds (readEvent C buf banks st p)"
  then obtain st1 p1 where e: "readEvent C buf banks st p = Inr (st1, p1)"
    by (auto simp: succeeds_iff)
  from readEvent_stride [OF e] show "p + 8 + unat (buf ! (p + 4)) \<le> length buf" by simp
next
  assume "p + 8 + unat (buf ! (p + 4)) \<le> length buf"
  then show "succeeds (readEvent C buf banks st p)" by (rule readEvent_succeeds)
qed

lemma readTracks_trivial_succeeds:
  "flags AND kSoundTrivial \<noteq> 0 \<Longrightarrow> succeeds (readTracks C buf banks sound indices 1 flags p)"
  by (simp add: succeeds_iff readTracks_def Let_def returnR_Inr)

lemma waveOfIndices_bank:
  "waveOfIndices banks indices w \<Longrightarrow>
     (length banks \<le> unat (drop_bit 16 indices) \<longrightarrow> bank w = []) \<and>
     (unat (drop_bit 16 indices) < length banks \<longrightarrow>
        bank w = WaveBank.name (banks ! unat (drop_bit 16 indices)))"
  by (simp add: waveOfIndices_def)

subsection \<open>Cues come from their records\<close>

lemma readCueVarations_name:
  "readCueVarations C buf cue offset p = Inr (cue', p') \<Longrightarrow> Cue.name cue' = Cue.name cue"
  by (auto simp: readCueVarations_def reader_Inr split: prod.splits)

text \<open>What readCue does to the cue i, from the fields of its record.\<close>

lemma readCue_effect:
  assumes "readCue C buf xsbFlags offset i sb p = Inr (sb', p')" and "i < length (cues sb)"
  defines "r \<equiv> unat offset + i * kCueDefinitionSize"
  shows "length (cues sb') = length (cues sb)"
    and "\<forall>j. j \<noteq> i \<longrightarrow> cues sb' ! j = cues sb ! j"
    and "xsbFlags AND kXSBNoCueNames \<noteq> 0 \<Longrightarrow>
           Cue.name (cues sb' ! i) = Cue.name (cues sb ! i) \<and> cueMap sb' = cueMap sb"
    and "u32le buf (r + 8) = 0xFFFFFFFF \<Longrightarrow> u16le buf (r + 2) \<noteq> 0xFFFF \<Longrightarrow>
           variations (cues sb' ! i) =
             [(case variations (cues sb ! i) of [] \<Rightarrow> newCueVariation | v # _ \<Rightarrow> v)
                \<lparr>soundIndex := unat (u16le buf (r + 2)),
                 CueVariation.weightMin := kWeightMinimum C,
                 CueVariation.weightMax := kWeightMaximum C\<rparr>] \<and>
           Cue.variationSelectMethod (cues sb' ! i) = Some (kSelectMethodOrdered C)"
    and "u32le buf (r + 8) = 0xFFFFFFFF \<Longrightarrow> u16le buf (r + 2) = 0xFFFF \<Longrightarrow>
           variations (cues sb' ! i) = variations (cues sb ! i) \<and>
           Cue.variationSelectMethod (cues sb' ! i) = Cue.variationSelectMethod (cues sb ! i)"
proof -
  note u = readCue_unfold [OF readCue_bound [OF assms(1)], of C xsbFlags sb p]
  from assms(1) [unfolded u] obtain sb1 q where
    n: "(if xsbFlags AND kXSBNoCueNames = 0 \<and> u32le buf (r + 4) \<noteq> 0xFFFFFFFF
         then bindR (seek buf (unat (u32le buf (r + 4)))) (\<lambda>_.
              bindR (readString buf) (\<lambda>nm.
                returnR (sb\<lparr>cues := (cues sb)[i := (cues sb ! i)\<lparr>Cue.name := nm\<rparr>],
                            cueMap := (cueMap sb)(nm \<mapsto> i)\<rparr>)))
         else returnR sb) (r + 20) = Inr (sb1, q)"
    and v: "(if u32le buf (r + 8) \<noteq> 0xFFFFFFFF
       then bindR (readCueVarations C buf (cues sb1 ! i) (u32le buf (r + 8))) (\<lambda>cue.
              returnR (sb1\<lparr>cues := (cues sb1)[i := cue]\<rparr>))
       else if u16le buf (r + 2) \<noteq> 0xFFFF
       then returnR
              (sb1\<lparr>cues := (cues sb1)[i := (cues sb1 ! i)
                 \<lparr>Cue.variationSelectMethod := Some (kSelectMethodOrdered C),
                  variations :=
                    modifyBack
                      (\<lambda>v. v\<lparr>soundIndex := unat (u16le buf (r + 2)),
                              CueVariation.weightMin := kWeightMinimum C,
                              CueVariation.weightMax := kWeightMaximum C\<rparr>)
                      (resize newCueVariation 1 (variations (cues sb1 ! i)))\<rparr>]\<rparr>)
       else returnR sb1) q = Inr (sb', p')"
    unfolding r_def by (auto simp: bindR_Inr)
  from n assms(2) have 1: "length (cues sb1) = length (cues sb)"
    and 2: "\<forall>j. j \<noteq> i \<longrightarrow> cues sb1 ! j = cues sb ! j"
    and 3: "variations (cues sb1 ! i) = variations (cues sb ! i)"
    and 4: "Cue.variationSelectMethod (cues sb1 ! i) = Cue.variationSelectMethod (cues sb ! i)"
    and 5: "xsbFlags AND kXSBNoCueNames \<noteq> 0 \<Longrightarrow> sb1 = sb"
    by (auto simp: reader_Inr split: if_splits)
  from v 1 assms(2) show "length (cues sb') = length (cues sb)"
    by (auto simp: reader_Inr split: if_splits)
  from v 2 show "\<forall>j. j \<noteq> i \<longrightarrow> cues sb' ! j = cues sb ! j"
    by (auto simp: reader_Inr split: if_splits)
  from v 1 assms(2) 5 show "xsbFlags AND kXSBNoCueNames \<noteq> 0 \<Longrightarrow>
           Cue.name (cues sb' ! i) = Cue.name (cues sb ! i) \<and> cueMap sb' = cueMap sb"
    by (auto simp: reader_Inr readCueVarations_name split: if_splits)
  from v 1 3 assms(2)
  show "u32le buf (r + 8) = 0xFFFFFFFF \<Longrightarrow> u16le buf (r + 2) \<noteq> 0xFFFF \<Longrightarrow>
           variations (cues sb' ! i) =
             [(case variations (cues sb ! i) of [] \<Rightarrow> newCueVariation | v # _ \<Rightarrow> v)
                \<lparr>soundIndex := unat (u16le buf (r + 2)),
                 CueVariation.weightMin := kWeightMinimum C,
                 CueVariation.weightMax := kWeightMaximum C\<rparr>] \<and>
           Cue.variationSelectMethod (cues sb' ! i) = Some (kSelectMethodOrdered C)"
    by (simp add: reader_Inr modifyBack_resize1)
  from v 3 4
  show "u32le buf (r + 8) = 0xFFFFFFFF \<Longrightarrow> u16le buf (r + 2) = 0xFFFF \<Longrightarrow>
           variations (cues sb' ! i) = variations (cues sb ! i) \<and>
           Cue.variationSelectMethod (cues sb' ! i) = Cue.variationSelectMethod (cues sb ! i)"
    by (simp add: reader_Inr)
qed

lemma readCues_cues:
  assumes "readCues C buf sb xsbFlags offset count p = Inr (sb', p')" and "cues sb = []"
  shows "length (cues sb') = unat count \<and>
         (\<forall>j < unat count.
            cueAsRecord C buf xsbFlags (unat offset + j * kCueDefinitionSize) (cues sb' ! j)) \<and>
         (xsbFlags AND kXSBNoCueNames \<noteq> 0 \<longrightarrow> cueMap sb' = cueMap sb)"
proof -
  define I where "I = (\<lambda>m (s::SoundBank). length (cues s) = unat count \<and>
     (\<forall>j. m \<le> j \<and> j < unat count \<longrightarrow> cues s ! j = newCue) \<and>
     (\<forall>j < m. cueAsRecord C buf xsbFlags (unat offset + j * kCueDefinitionSize) (cues s ! j)) \<and>
     (xsbFlags AND kXSBNoCueNames \<noteq> 0 \<longrightarrow> cueMap s = cueMap sb))"
  have "I (unat count) sb'"
  proof (rule loopR_upt [OF assms(1) [unfolded readCues_def]])
    show "0 \<le> unat count" by simp
    show "I 0 (sb\<lparr>cues := resize newCue (unat count) (cues sb)\<rparr>)"
      by (simp add: I_def assms(2) resize_def)
  next
    fix i s q s' q'
    assume i: "i < unat count" and inv: "I i s" and b: "readCue C buf xsbFlags offset i s q = Inr (s', q')"
    from inv i have len: "i < length (cues s)" and new: "cues s ! i = newCue"
      by (simp_all add: I_def)
    note e = readCue_effect [OF b len]
    have a: "cueAsRecord C buf xsbFlags (unat offset + i * kCueDefinitionSize) (cues s' ! i)"
      using e(3,4,5) new
      by (auto simp: cueAsRecord_def newCue_def newCueVariation_def)
    have o: "\<And>j. j \<noteq> i \<Longrightarrow> cues s' ! j = cues s ! j"
      using e(2) by simp
    show "I (Suc i) s'"
      unfolding I_def
    proof (intro conjI allI impI)
      show "length (cues s') = unat count" using e(1) inv by (simp add: I_def)
    next
      fix j assume "Suc i \<le> j \<and> j < unat count"
      then show "cues s' ! j = newCue" using o [of j] inv by (simp add: I_def)
    next
      fix j assume "j < Suc i"
      then show "cueAsRecord C buf xsbFlags (unat offset + j * kCueDefinitionSize) (cues s' ! j)"
        using a o [of j] inv by (cases "j = i") (simp_all add: I_def)
    next
      assume "xsbFlags AND kXSBNoCueNames \<noteq> 0"
      then show "cueMap s' = cueMap sb" using e(3) inv by (simp add: I_def)
    qed
  qed
  then show ?thesis by (simp add: I_def)
qed

lemma ucast_and_1: "(ucast (w :: uint16) :: uint32) AND 1 = ucast (w AND 1)"
  by (rule bit_word_eqI) (auto simp: bit_simps)

lemma ucast_16_32_eq_0: "((ucast (x :: uint16) :: uint32) = 0) = (x = 0)"
  using unat_ucast_16_32 [of x] by (metis unat_0_iff)

lemma noCueNames_ucast:
  "((ucast (w :: uint16) :: uint32) AND kXSBNoCueNames \<noteq> 0) = (w AND 1 \<noteq> 0)"
  by (simp add: kXSBNoCueNames_def ucast_and_1 ucast_16_32_eq_0)

lemma constructor_cues:
  assumes "XACTSoundBank_Binary C buf = Inr sb"
  shows "length (cues sb) = unat (u16le buf 30) \<and>
         (\<forall>j < unat (u16le buf 30).
            cueAsRecord C buf (ucast (u16le buf 24)) (56 + j * kCueDefinitionSize) (cues sb ! j)) \<and>
         (u16le buf 24 AND 1 \<noteq> 0 \<longrightarrow> cueMap sb = Map.empty)"
proof -
  from constructor_D [OF assms] obtain nm sb1 p1 sb2 p2 p3 where
    w: "readWaveBanks buf (newSoundBank\<lparr>SoundBank.name := nm\<rparr>) (u32le buf 8)
         (ucast (u16le buf 34)) 56 = Inr (sb1, p1)"
    and c: "readCues C buf sb1 (ucast (u16le buf 24)) 56 (ucast (u16le buf 30)) p1 = Inr (sb2, p2)"
    and s: "readSounds C buf sb2 (of_nat (56 + unat (u16le buf 30) * kCueDefinitionSize))
         (ucast (u16le buf 28)) (u32le buf 16) p2 = Inr (sb, p3)"
    by blast
  from readWaveBanks_frame [OF w] have e: "cues sb1 = []" and m: "cueMap sb1 = Map.empty"
    by (simp_all add: newSoundBank_def)
  from readCues_cues [OF c e] m readSounds_frame [OF s] show ?thesis
    by (simp add: unat_ucast_16_32 noCueNames_ucast)
qed

lemma readCue_noCueNames:
  assumes "xsbFlags AND kXSBNoCueNames \<noteq> 0"
    and "unat offset + i * kCueDefinitionSize + 20 \<le> length buf"
  shows "readCue C buf xsbFlags offset i sb p =
     (if u32le buf (unat offset + i * kCueDefinitionSize + 8) \<noteq> 0xFFFFFFFF
       then bindR (readCueVarations C buf (cues sb ! i)
                     (u32le buf (unat offset + i * kCueDefinitionSize + 8))) (\<lambda>cue.
              returnR (sb\<lparr>cues := (cues sb)[i := cue]\<rparr>))
       else if u16le buf (unat offset + i * kCueDefinitionSize + 2) \<noteq> 0xFFFF
       then returnR
              (sb\<lparr>cues := (cues sb)[i := (cues sb ! i)
                 \<lparr>Cue.variationSelectMethod := Some (kSelectMethodOrdered C),
                  variations :=
                    modifyBack
                      (\<lambda>v. v\<lparr>soundIndex := unat (u16le buf (unat offset + i * kCueDefinitionSize + 2)),
                              CueVariation.weightMin := kWeightMinimum C,
                              CueVariation.weightMax := kWeightMaximum C\<rparr>)
                      (resize newCueVariation 1 (variations (cues sb ! i)))\<rparr>]\<rparr>)
       else returnR sb) (unat offset + i * kCueDefinitionSize + 20)"
  unfolding readCue_unfold [OF assms(2)] using assms(1)
  by (simp add: bindR_def returnR_def)

lemma exampleNoCueNames_decodes:
  "map_sum id (\<lambda>sb. (map Cue.name (cues sb), cueMap sb))
     (XACTSoundBank_Binary exampleConsts exampleNoCueNames) = Inr ([[]], Map.empty)"
  by (simp add: eval_bank exampleNoCueNames_def Let_def upt_rec del: loopR.simps)

lemma exampleNoCueNames_named:
  "XACTSoundBank_Binary exampleConsts (exampleNoCueNames[24 := 0]) = Inl SeekError"
  by (simp add: eval_bank exampleNoCueNames_def Let_def upt_rec del: loopR.simps)

lemma exampleDirectCues_decodes:
  "map_sum id (\<lambda>sb. map (\<lambda>c. (Cue.variationSelectMethod c, variations c)) (cues sb))
     (XACTSoundBank_Binary exampleConsts exampleDirectCues) =
   Inr [(Some 0, [\<lparr>soundIndex = 5, CueVariation.weightMin = 0, CueVariation.weightMax = 255\<rparr>]),
        (None, [])]"
  by (simp add: eval_bank exampleDirectCues_def Let_def upt_rec del: loopR.simps)

section \<open>The claims\<close>

text \<open>
  C5. The variation descriptor decoder reads one 32-bit little-endian word and returns a
  function of it alone: flags are its top 2 bits, the current index the next 13 bits, the
  selection method the next 4 bits and the count the low 13 bits. The cue-variation
  loader and the wave-variation loader both decode their descriptor with it: the number
  of variations they read and the selection method they store are the count and the
  selection method of the word at the offset they seek to.
\<close>

theorem variation_descriptor_decoder:
  "readVariationData buf p =
     (if p + 4 \<le> length buf then Inr (variationFields (u32le buf p), p + 4) else Inl ReadError)
   \<and> (\<forall>cnt cur sm fl. variationFields w = (cnt, cur, sm, fl) \<longrightarrow>
        unat fl = unat w div 2 ^ 30 \<and> unat cur = unat w div 2 ^ 17 mod 2 ^ 13 \<and>
        unat sm = unat w div 2 ^ 13 mod 2 ^ 4 \<and> unat cnt = unat w mod 2 ^ 13)
   \<and> (\<forall>cue' p'. readCueVarations C buf cue offset p = Inr (cue', p') \<longrightarrow>
        length (variations cue') = unat (fst (variationFields (u32le buf (unat offset)))) \<and>
        Cue.variationSelectMethod cue' =
          Some (fst (snd (snd (variationFields (u32le buf (unat offset)))))))
   \<and> (\<forall>track' p'. readWaveVariations C buf banks track offset p = Inr (track', p') \<longrightarrow>
        length (waves track') =
          length (waves track) + unat (fst (variationFields (u32le buf (unat offset)))) \<and>
        Track.variationSelectMethod track' =
          Some (fst (snd (snd (variationFields (u32le buf (unat offset)))))))"
proof -
  have 1: "readVariationData buf p =
     (if p + 4 \<le> length buf then Inr (variationFields (u32le buf p), p + 4) else Inl ReadError)"
    by (simp add: readVariationData_def bindR_def readUint32LE_def returnR_def)
  show ?thesis
    using 1 unat_variationFields [of w] readCueVarations_descriptor [of C buf cue offset p]
      readWaveVariations_descriptor [of C buf banks track offset p]
    by blast
qed

theorem variation_descriptor_decoder_witness:
  "variationFields 0x80066002 = (2, 3, 3, 2) \<and>
   unat (2 :: uint8) = unat (0x80066002 :: uint32) div 2 ^ 30 \<and>
   (\<exists>cue' p'. readCueVarations exampleConsts exampleVariations newCue 0 5 = Inr (cue', p') \<and>
      length (variations cue') = 2 \<and> Cue.variationSelectMethod cue' = Some 3) \<and>
   (\<exists>track' p'. readWaveVariations exampleConsts exampleVariations [] newTrack 0 5 = Inr (track', p')
      \<and> length (waves track') = 2 \<and> Track.variationSelectMethod track' = Some 3)"
proof -
  have v: "variationFields 0x80066002 = (2, 3, 3, 2)"
    by code_simp
  have w: "u32le exampleVariations (unat (0 :: uint32)) = 0x80066002"
    by code_simp
  have "succeeds (readCueVarations exampleConsts exampleVariations newCue 0 5)"
    by code_simp
  then obtain cue' p' where
    c: "readCueVarations exampleConsts exampleVariations newCue 0 5 = Inr (cue', p')"
    by (auto simp: succeeds_iff)
  have "succeeds (readWaveVariations exampleConsts exampleVariations [] newTrack 0 5)"
    by code_simp
  then obtain track' q' where
    t: "readWaveVariations exampleConsts exampleVariations [] newTrack 0 5 = Inr (track', q')"
    by (auto simp: succeeds_iff)
  have n: "waves newTrack = []"
    by (simp add: newTrack_def)
  show ?thesis
    using variation_descriptor_decoder
      [of exampleVariations 5 "0x80066002" exampleConsts newCue 0 "[]" newTrack] v w c t n
    by simp
qed

text \<open>
  C1 (as amended). After an event record is decoded, the stream is at the position
  immediately after the record's flag byte plus 2 plus the declared parameter size,
  whatever the type tag and however many bytes the type-specific decoding consumed: the
  two bytes that every case of the switch consumes first are not counted in the declared
  size. The record is decoded exactly when those bytes lie inside the buffer.
\<close>

theorem event_record_stride:
  "(readEvent C buf banks st p = Inr (st', p') \<longrightarrow> p' = p + 6 + 2 + unat (buf ! (p + 4)))
   \<and> succeeds (readEvent C buf banks st p) = (p + 6 + 2 + unat (buf ! (p + 4)) \<le> length buf)"
proof -
  have 1: "readEvent C buf banks st p = Inr (st', p') \<Longrightarrow> p' = p + 6 + 2 + unat (buf ! (p + 4))"
    using readEvent_stride(1) [of C buf banks st p st' p'] by simp
  have 2: "succeeds (readEvent C buf banks st p) \<Longrightarrow> p + 6 + 2 + unat (buf ! (p + 4)) \<le> length buf"
  proof -
    assume "succeeds (readEvent C buf banks st p)"
    then obtain st1 p1 where e: "readEvent C buf banks st p = Inr (st1, p1)"
      by (auto simp: succeeds_iff)
    from readEvent_stride [OF e] show ?thesis by simp
  qed
  have 3: "p + 6 + 2 + unat (buf ! (p + 4)) \<le> length buf \<Longrightarrow> succeeds (readEvent C buf banks st p)"
    using readEvent_succeeds [of p buf C banks st] by simp
  from 1 2 3 show ?thesis by blast
qed

theorem event_record_stride_witness:
  "unat (examplePlayEvent ! (0 + 4)) = 6 \<and>
   (\<exists>st'. readEvent exampleConsts examplePlayEvent [] (0xFFFFFFFF, newTrack, newSound) 0
            = Inr (st', 14))"
proof -
  have 1: "unat (examplePlayEvent ! (0 + 4)) = 6"
    by code_simp
  have 2: "length examplePlayEvent = 23"
    by code_simp
  have "succeeds (readEvent exampleConsts examplePlayEvent [] (0xFFFFFFFF, newTrack, newSound) 0)"
    using event_record_stride
      [of exampleConsts examplePlayEvent "[]" "(0xFFFFFFFF, newTrack, newSound)" 0] 1 2
    by simp
  then obtain st1 p1 where
    e: "readEvent exampleConsts examplePlayEvent [] (0xFFFFFFFF, newTrack, newSound) 0
          = Inr (st1, p1)"
    unfolding succeeds_iff by (metis surj_pair)
  have "p1 = 14"
    using event_record_stride
      [of exampleConsts examplePlayEvent "[]" "(0xFFFFFFFF, newTrack, newSound)" 0 st1 p1] e 1
    by simp
  with e 1 show ?thesis by blast
qed

text \<open>
  C1 as stated fails: a Play event declaring parameter size 6, of which the decoder
  consumes the 4 bytes of the indices, leaves the stream 8 bytes past the flag byte, not 6.
\<close>

theorem event_record_stride_counterexample:
  "unat (examplePlayEvent ! (0 + 4)) = 6 \<and>
   (\<exists>st' p'. readEvent exampleConsts examplePlayEvent [] (0xFFFFFFFF, newTrack, newSound) 0
            = Inr (st', p') \<and> p' \<noteq> 0 + 6 + unat (examplePlayEvent ! (0 + 4)))"
proof -
  have 1: "unat (examplePlayEvent ! (0 + 4)) = 6"
    by code_simp
  have 2: "length examplePlayEvent = 23"
    by code_simp
  have "succeeds (readEvent exampleConsts examplePlayEvent [] (0xFFFFFFFF, newTrack, newSound) 0)"
    using 1 2 by (intro readEvent_succeeds) simp
  then obtain st1 p1 where
    e: "readEvent exampleConsts examplePlayEvent [] (0xFFFFFFFF, newTrack, newSound) 0
          = Inr (st1, p1)"
    unfolding succeeds_iff by (metis surj_pair)
  from readEvent_stride(1) [OF e] 1 have "p1 = 14" by simp
  with e 1 show ?thesis by (intro conjI exI [of _ st1] exI [of _ 14]) simp_all
qed

text \<open>
  C10 (as amended). In a complex track the loop over the events keeps one deferred
  offset: after the loop it is the offset of the last Play or PlayComplex event that has
  at least 4 parameter bytes and the multiple-variations flag, or \<open>0xFFFFFFFF\<close> when
  there is none. In the loop only the events that name their wave directly add wave
  variations. After the loop, when the deferred offset is not \<open>0xFFFFFFFF\<close>, the
  wave-variation table at that offset is read once, from the position and the track the
  loop ended with, and adds as many variations as its descriptor counts; when it is
  \<open>0xFFFFFFFF\<close>, the track is the one the loop ended with and no table is read.
\<close>

theorem complex_track_deferred_offset:
  assumes "readComplexTrack C buf banks track sound p = Inr ((track2, sound2), p2)"
  shows
    "let eventCount = unat (ucast (u32le buf p AND 0xFF) :: uint8);
         eventsOffset = unat (drop_bit 8 (u32le buf p));
         starts = eventStarts buf eventsOffset eventCount;
         wo = last (0xFFFFFFFF # List.map_filter (deferredOffset C buf) starts)
     in (\<exists>track1 p1.
           loopR (\<lambda>i. readEvent C buf banks) [0..<eventCount] (0xFFFFFFFF, track, sound)
             eventsOffset = Inr ((wo, track1, sound2), p1) \<and>
           length (waves track1) = length (waves track) + length (filter (directPlay C buf) starts) \<and>
           (if wo \<noteq> 0xFFFFFFFF
            then readWaveVariations C buf banks track1 wo p1 = Inr (track2, p2)
            else track2 = track1 \<and> p2 = p1)) \<and>
        length (waves track2) =
          length (waves track) + length (filter (directPlay C buf) starts) +
          (if wo \<noteq> 0xFFFFFFFF then unat (fst (variationFields (u32le buf (unat wo)))) else 0)"
proof -
  from readComplexTrack_deferred [OF assms] obtain track1 p1 where
    l: "loopR (\<lambda>i. readEvent C buf banks)
          [0..<unat (ucast (u32le buf p AND 0xFF) :: uint8)] (0xFFFFFFFF, track, sound)
          (unat (drop_bit 8 (u32le buf p))) =
        Inr ((last (0xFFFFFFFF # List.map_filter (deferredOffset C buf)
                (eventStarts buf (unat (drop_bit 8 (u32le buf p)))
                   (unat (ucast (u32le buf p AND 0xFF) :: uint8)))), track1, sound2), p1)"
    and n: "length (waves track1) = length (waves track) +
          length (filter (directPlay C buf) (eventStarts buf (unat (drop_bit 8 (u32le buf p)))
                   (unat (ucast (u32le buf p AND 0xFF) :: uint8))))"
    and r: "if last (0xFFFFFFFF # List.map_filter (deferredOffset C buf)
                (eventStarts buf (unat (drop_bit 8 (u32le buf p)))
                   (unat (ucast (u32le buf p AND 0xFF) :: uint8)))) \<noteq> 0xFFFFFFFF
            then readWaveVariations C buf banks track1
                   (last (0xFFFFFFFF # List.map_filter (deferredOffset C buf)
                      (eventStarts buf (unat (drop_bit 8 (u32le buf p)))
                         (unat (ucast (u32le buf p AND 0xFF) :: uint8))))) p1 = Inr (track2, p2)
            else track2 = track1 \<and> p2 = p1"
    by blast
  show ?thesis
  proof (cases "last (0xFFFFFFFF # List.map_filter (deferredOffset C buf)
                (eventStarts buf (unat (drop_bit 8 (u32le buf p)))
                   (unat (ucast (u32le buf p AND 0xFF) :: uint8)))) \<noteq> 0xFFFFFFFF")
    case True
    with r have w: "readWaveVariations C buf banks track1
                   (last (0xFFFFFFFF # List.map_filter (deferredOffset C buf)
                      (eventStarts buf (unat (drop_bit 8 (u32le buf p)))
                         (unat (ucast (u32le buf p AND 0xFF) :: uint8))))) p1 = Inr (track2, p2)"
      by simp
    from readWaveVariations_descriptor(1) [OF w] l n r True show ?thesis
      unfolding Let_def by (intro conjI exI [of _ track1] exI [of _ p1]) simp_all
  next
    case False
    with l n r show ?thesis
      unfolding Let_def by (intro conjI exI [of _ track1] exI [of _ p1]) simp_all
  qed
qed


theorem complex_track_deferred_offset_witness:
  "List.map_filter (deferredOffset exampleConsts exampleDeferredTrack)
     (eventStarts exampleDeferredTrack 4 2) = [0x7FFFFFFF, 0x1C] \<and>
   (\<exists>track2 sound2 p2.
      readComplexTrack exampleConsts exampleDeferredTrack [] newTrack newSound 0
        = Inr ((track2, sound2), p2) \<and>
      length (waves track2) = 2)"
proof -
  have 1: "unat (ucast (u32le exampleDeferredTrack 0 AND 0xFF) :: uint8) = 2"
    by code_simp
  have 2: "unat (drop_bit 8 (u32le exampleDeferredTrack 0)) = 4"
    by code_simp
  have 3: "List.map_filter (deferredOffset exampleConsts exampleDeferredTrack)
     (eventStarts exampleDeferredTrack 4 2) = [0x7FFFFFFF, 0x1C]"
    by code_simp
  have 4: "filter (directPlay exampleConsts exampleDeferredTrack)
     (eventStarts exampleDeferredTrack 4 2) = []"
    by code_simp
  have 5: "unat (fst (variationFields (u32le exampleDeferredTrack (unat (0x1C :: uint32))))) = 2"
    by code_simp
  have 6: "waves newTrack = []"
    by (simp add: newTrack_def)
  have "succeeds (readComplexTrack exampleConsts exampleDeferredTrack [] newTrack newSound 0)"
    by (simp add: eval_simps exampleDeferredTrack_def Let_def upt_rec del: loopR.simps)
  then obtain track2 sound2 p2 where
    e: "readComplexTrack exampleConsts exampleDeferredTrack [] newTrack newSound 0
          = Inr ((track2, sound2), p2)"
    unfolding succeeds_iff by (metis surj_pair)
  have "length (waves track2) = 2"
    using complex_track_deferred_offset [OF e] 1 2 3 4 5 6 by (simp add: Let_def)
  with e 3 show ?thesis by blast
qed

text \<open>
  C10 as stated fails when the last deferred offset is \<open>0xFFFFFFFF\<close>, the value that
  marks that nothing was deferred: the track below has one Play event with the
  multiple-variations flag and that offset; the track is decoded and has no wave
  variations, although reading a table at that offset throws.
\<close>

theorem complex_track_deferred_offset_counterexample:
  "List.map_filter (deferredOffset exampleConsts exampleSentinelTrack)
     (eventStarts exampleSentinelTrack 4 1) = [0xFFFFFFFF] \<and>
   (\<exists>track2 sound2 p2.
      readComplexTrack exampleConsts exampleSentinelTrack [] newTrack newSound 0
        = Inr ((track2, sound2), p2) \<and> waves track2 = []) \<and>
   (\<forall>track1 p1. readWaveVariations exampleConsts exampleSentinelTrack [] track1 0xFFFFFFFF p1
        = Inl SeekError)"
proof -
  have 1: "List.map_filter (deferredOffset exampleConsts exampleSentinelTrack)
     (eventStarts exampleSentinelTrack 4 1) = [0xFFFFFFFF]"
    by code_simp
  have "map_sum id (\<lambda>((t, s), p). waves t)
          (readComplexTrack exampleConsts exampleSentinelTrack [] newTrack newSound 0) = Inr []"
    by (simp add: eval_simps exampleSentinelTrack_def Let_def upt_rec newTrack_def
        del: loopR.simps)
  then have 2: "\<exists>track2 sound2 p2.
      readComplexTrack exampleConsts exampleSentinelTrack [] newTrack newSound 0
        = Inr ((track2, sound2), p2) \<and> waves track2 = []"
    by (cases "readComplexTrack exampleConsts exampleSentinelTrack [] newTrack newSound 0") auto
  have l: "length exampleSentinelTrack = 17"
    by code_simp
  have 3: "\<forall>track1 p1. readWaveVariations exampleConsts exampleSentinelTrack [] track1 0xFFFFFFFF p1
        = Inl SeekError"
    by (simp add: readWaveVariations_def bindR_def seek_def l)
  from 1 2 3 show ?thesis by blast
qed

text \<open>
  C4. When the legal range is not empty (\<open>kWeightMinimum \<le> kWeightMaximum\<close>), every
  cue variation and every wave variation of a decoded sound bank has
  \<open>kWeightMinimum \<le> weightMin \<le> weightMax \<le> kWeightMaximum\<close>, whatever the two 16-bit
  weights of its record were. Each weight is clamped on its own and the two are then
  swapped when the minimum exceeds the maximum: the stored minimum is the smaller of the
  two clamped values and the stored maximum the larger.
\<close>

theorem weights_in_range:
  assumes "kWeightMinimum C \<le> kWeightMaximum C" and "XACTSoundBank_Binary C buf = Inr sb"
  shows "(\<forall>c \<in> set (cues sb). \<forall>v \<in> set (variations c).
            kWeightMinimum C \<le> CueVariation.weightMin v \<and>
            CueVariation.weightMin v \<le> CueVariation.weightMax v \<and>
            CueVariation.weightMax v \<le> kWeightMaximum C) \<and>
         (\<forall>s \<in> set (sounds sb). \<forall>t \<in> set (tracks s). \<forall>w \<in> set (waves t).
            kWeightMinimum C \<le> WaveVariation.weightMin w \<and>
            WaveVariation.weightMin w \<le> WaveVariation.weightMax w \<and>
            WaveVariation.weightMax w \<le> kWeightMaximum C) \<and>
         (\<forall>v p v' p'. readCueVariation C buf v p = Inr (v', p') \<longrightarrow>
            CueVariation.weightMin v' =
              min (CLIP (unat (u16le buf (p + 4))) (kWeightMinimum C) (kWeightMaximum C))
                  (CLIP (unat (u16le buf (p + 6))) (kWeightMinimum C) (kWeightMaximum C)) \<and>
            CueVariation.weightMax v' =
              max (CLIP (unat (u16le buf (p + 4))) (kWeightMinimum C) (kWeightMaximum C))
                  (CLIP (unat (u16le buf (p + 6))) (kWeightMinimum C) (kWeightMaximum C))) \<and>
         (\<forall>banks track indices a b.
            WaveVariation.weightMin (last (waves (addWaveVariation C banks track indices a b))) =
              min (CLIP (unat a) (kWeightMinimum C) (kWeightMaximum C))
                  (CLIP (unat b) (kWeightMinimum C) (kWeightMaximum C)) \<and>
            WaveVariation.weightMax (last (waves (addWaveVariation C banks track indices a b))) =
              max (CLIP (unat a) (kWeightMinimum C) (kWeightMaximum C))
                  (CLIP (unat b) (kWeightMinimum C) (kWeightMaximum C)))"
proof -
  from constructor_weightsOK [OF assms] have "weightsOK C sb" .
  then have 1: "(\<forall>c \<in> set (cues sb). \<forall>v \<in> set (variations c).
            kWeightMinimum C \<le> CueVariation.weightMin v \<and>
            CueVariation.weightMin v \<le> CueVariation.weightMax v \<and>
            CueVariation.weightMax v \<le> kWeightMaximum C)"
    and 2: "(\<forall>s \<in> set (sounds sb). \<forall>t \<in> set (tracks s). \<forall>w \<in> set (waves t).
            kWeightMinimum C \<le> WaveVariation.weightMin w \<and>
            WaveVariation.weightMin w \<le> WaveVariation.weightMax w \<and>
            WaveVariation.weightMax w \<le> kWeightMaximum C)"
    by (auto simp: weightsOK_def cueOK_def soundOK_def trackOK_def cueVariationOK_def
        waveVariationOK_def list_all_iff)
  from 1 2 readCueVariation_weights [of C buf] addWaveVariation_weights [of C] show ?thesis
    by blast
qed

theorem weights_in_range_witness:
  "kWeightMinimum exampleConsts \<le> kWeightMaximum exampleConsts \<and>
   (\<exists>sb. XACTSoundBank_Binary exampleConsts exampleWeightsBank = Inr sb \<and>
      map variations (cues sb) =
        [[\<lparr>soundIndex = 1, CueVariation.weightMin = 10, CueVariation.weightMax = 255\<rparr>]] \<and>
      list_all (\<lambda>c. list_all (\<lambda>v. kWeightMinimum exampleConsts \<le> CueVariation.weightMin v \<and>
            CueVariation.weightMin v \<le> CueVariation.weightMax v \<and>
            CueVariation.weightMax v \<le> kWeightMaximum exampleConsts) (variations c)) (cues sb))"
proof -
  have k: "kWeightMinimum exampleConsts \<le> kWeightMaximum exampleConsts"
    by (simp add: exampleConsts_def)
  have "map_sum id (\<lambda>sb. map variations (cues sb))
          (XACTSoundBank_Binary exampleConsts exampleWeightsBank) =
        Inr [[\<lparr>soundIndex = 1, CueVariation.weightMin = 10, CueVariation.weightMax = 255\<rparr>]]"
    by (simp add: eval_bank exampleWeightsBank_def Let_def upt_rec del: loopR.simps)
  then obtain sb where e: "XACTSoundBank_Binary exampleConsts exampleWeightsBank = Inr sb"
    and v: "map variations (cues sb) =
        [[\<lparr>soundIndex = 1, CueVariation.weightMin = 10, CueVariation.weightMax = 255\<rparr>]]"
    by (cases "XACTSoundBank_Binary exampleConsts exampleWeightsBank") auto
  from weights_in_range [OF k e] have
    "list_all (\<lambda>c. list_all (\<lambda>v. kWeightMinimum exampleConsts \<le> CueVariation.weightMin v \<and>
            CueVariation.weightMin v \<le> CueVariation.weightMax v \<and>
            CueVariation.weightMax v \<le> kWeightMaximum exampleConsts) (variations c)) (cues sb)"
    by (simp add: list_all_iff)
  with k e v show ?thesis by (intro conjI exI [of _ sb])
qed

text \<open>
  C9. In a decoded sound bank the wave banks are the entries of the header's wave-bank
  table, and every wave variation of every sound is the one its record describes
  (\<open>soundWaves\<close>): the single variation synthesized for a trivial sound from the indices
  word of the sound record, the variations of the table of a simple sound, and for each
  complex track the variations of its Play and PlayComplex events that name a wave,
  followed by those of the deferred table. In each case (\<open>waveOfIndices\<close>) the bank name of
  the variation is the name of the loaded wave bank at the index packed in the top 16
  bits of the indices word when that index is below the number of loaded wave banks, and
  is left empty otherwise. No throw depends on the bank index: a trivial sound with one
  track is always synthesized, a table entry is read whenever its 8 bytes are in the
  buffer, and an event record is read whenever the record lies in the buffer.
\<close>

theorem wave_variation_bank_names:
  assumes "XACTSoundBank_Binary C buf = Inr sb"
  shows "length (waveBanks sb) = unat (u16le buf 34) \<and>
    (\<forall>k < unat (u16le buf 34). WaveBank.name (waveBanks sb ! k) =
           takeWhile (\<lambda>b. b \<noteq> 0) (take 16 (drop (unat (u32le buf 8) + 16 * k) buf))) \<and>
    length (sounds sb) = unat (u16le buf 28) \<and>
    (\<forall>i < unat (u16le buf 28).
        soundWaves C buf (waveBanks sb)
          (u32le buf (56 + unat (u16le buf 30) * kCueDefinitionSize + i * kSoundDefinitionSize))
          (ucast (buf ! (56 + unat (u16le buf 30) * kCueDefinitionSize
                           + i * kSoundDefinitionSize + 8)))
          (buf ! (56 + unat (u16le buf 30) * kCueDefinitionSize + i * kSoundDefinitionSize + 11))
          (sounds sb ! i)) \<and>
    (\<forall>banks indices w. waveOfIndices banks indices w \<longrightarrow>
        (length banks \<le> unat (drop_bit 16 indices) \<longrightarrow> bank w = []) \<and>
        (unat (drop_bit 16 indices) < length banks \<longrightarrow>
           bank w = WaveBank.name (banks ! unat (drop_bit 16 indices)))) \<and>
    (\<forall>banks sound indices flags p. flags AND kSoundTrivial \<noteq> 0 \<longrightarrow>
        succeeds (readTracks C buf banks sound indices 1 flags p)) \<and>
    (\<forall>banks track p.
        succeeds (readWaveVariation C buf banks track p) = (p + 8 \<le> length buf)) \<and>
    (\<forall>banks st p.
        succeeds (readEvent C buf banks st p) = (p + 8 + unat (buf ! (p + 4)) \<le> length buf))"
proof (intro conjI)
  show "length (waveBanks sb) = unat (u16le buf 34)"
    by (rule constructor_waves(1) [OF assms])
  show "\<forall>k < unat (u16le buf 34). WaveBank.name (waveBanks sb ! k) =
           takeWhile (\<lambda>b. b \<noteq> 0) (take 16 (drop (unat (u32le buf 8) + 16 * k) buf))"
    by (rule constructor_waves(2) [OF assms])
  show "length (sounds sb) = unat (u16le buf 28)"
    by (rule constructor_waves(3) [OF assms])
  show "\<forall>i < unat (u16le buf 28).
        soundWaves C buf (waveBanks sb)
          (u32le buf (56 + unat (u16le buf 30) * kCueDefinitionSize + i * kSoundDefinitionSize))
          (ucast (buf ! (56 + unat (u16le buf 30) * kCueDefinitionSize
                           + i * kSoundDefinitionSize + 8)))
          (buf ! (56 + unat (u16le buf 30) * kCueDefinitionSize + i * kSoundDefinitionSize + 11))
          (sounds sb ! i)"
    by (rule constructor_waves(4) [OF assms])
  show "\<forall>banks indices w. waveOfIndices banks indices w \<longrightarrow>
        (length banks \<le> unat (drop_bit 16 indices) \<longrightarrow> bank w = []) \<and>
        (unat (drop_bit 16 indices) < length banks \<longrightarrow>
           bank w = WaveBank.name (banks ! unat (drop_bit 16 indices)))"
    by (simp add: waveOfIndices_def)
  show "\<forall>banks sound indices flags p. flags AND kSoundTrivial \<noteq> 0 \<longrightarrow>
        succeeds (readTracks C buf banks sound indices 1 flags p)"
    by (simp add: readTracks_trivial_succeeds)
  show "\<forall>banks track p.
        succeeds (readWaveVariation C buf banks track p) = (p + 8 \<le> length buf)"
    by (simp add: succeeds_iff readWaveVariation_Inr)
  show "\<forall>banks st p.
        succeeds (readEvent C buf banks st p) = (p + 8 + unat (buf ! (p + 4)) \<le> length buf)"
    by (simp add: readEvent_succeeds_iff)
qed

theorem wave_variation_bank_names_witness:
  "\<exists>sb. XACTSoundBank_Binary exampleConsts exampleWaveBank = Inr sb \<and>
     map WaveBank.name (waveBanks sb) = [[0x41, 0x42]] \<and>
     map (\<lambda>s. map (\<lambda>t. map (\<lambda>w. (bank w, index w)) (waves t)) (tracks s)) (sounds sb) =
       [[[([0x41, 0x42], 7)]], [[([], 7)]], [[([0x41, 0x42], 3), ([], 9)]]] \<and>
     length (waveBanks sb) = 1 \<and>
     WaveBank.name (waveBanks sb ! 0) = [0x41, 0x42] \<and>
     length (sounds sb) = 3 \<and>
     soundWaves exampleConsts exampleWaveBank (waveBanks sb) 0x00000007 1 0x08 (sounds sb ! 0) \<and>
     soundWaves exampleConsts exampleWaveBank (waveBanks sb) 0x00050007 1 0x08 (sounds sb ! 1) \<and>
     soundWaves exampleConsts exampleWaveBank (waveBanks sb) 0x84 1 0 (sounds sb ! 2)"
proof -
  from exampleWaveBank_decodes obtain sb where
    e: "XACTSoundBank_Binary exampleConsts exampleWaveBank = Inr sb"
    and v: "map WaveBank.name (waveBanks sb) = [[0x41, 0x42]]"
       "map (\<lambda>s. map (\<lambda>t. map (\<lambda>w. (bank w, index w)) (waves t)) (tracks s)) (sounds sb) =
       [[[([0x41, 0x42], 7)]], [[([], 7)]], [[([0x41, 0x42], 3), ([], 9)]]]"
    by (cases "XACTSoundBank_Binary exampleConsts exampleWaveBank") auto
  have h: "unat (u16le exampleWaveBank 34) = 1" "unat (u16le exampleWaveBank 28) = 3"
    "unat (u16le exampleWaveBank 30) = 0" "unat (u32le exampleWaveBank 8) = 116"
    by (simp_all add: exampleWaveBank_def u16le_def u32le_def)
  have r: "u32le exampleWaveBank 56 = 0x00000007" "exampleWaveBank ! 64 = 1"
    "exampleWaveBank ! 67 = 0x08"
    "u32le exampleWaveBank 76 = 0x00050007" "exampleWaveBank ! 84 = 1"
    "exampleWaveBank ! 87 = 0x08"
    "u32le exampleWaveBank 96 = 0x84" "exampleWaveBank ! 104 = 1"
    "exampleWaveBank ! 107 = 0"
    by (simp_all add: exampleWaveBank_def u32le_def)
  have n: "takeWhile (\<lambda>b. b \<noteq> 0) (take 16 (drop 116 exampleWaveBank)) = [0x41, 0x42]"
    by (simp add: exampleWaveBank_def)
  note t = wave_variation_bank_names [OF e, unfolded h]
  from t have 1: "length (waveBanks sb) = 1" and 3: "length (sounds sb) = 3"
    by simp_all
  from t have "\<forall>k < 1. WaveBank.name (waveBanks sb ! k) =
           takeWhile (\<lambda>b. b \<noteq> 0) (take 16 (drop (116 + 16 * k) exampleWaveBank))"
    by (elim conjE)
  then have 2: "WaveBank.name (waveBanks sb ! 0) = [0x41, 0x42]"
    using n by simp
  from t have a: "\<forall>i < 3.
        soundWaves exampleConsts exampleWaveBank (waveBanks sb)
          (u32le exampleWaveBank (56 + 0 * kCueDefinitionSize + i * kSoundDefinitionSize))
          (ucast (exampleWaveBank ! (56 + 0 * kCueDefinitionSize
                           + i * kSoundDefinitionSize + 8)))
          (exampleWaveBank ! (56 + 0 * kCueDefinitionSize + i * kSoundDefinitionSize + 11))
          (sounds sb ! i)"
    by (elim conjE)
  have 4: "soundWaves exampleConsts exampleWaveBank (waveBanks sb) 0x00000007 1 0x08 (sounds sb ! 0)"
    using r a [rule_format, of 0] by (simp add: kSoundDefinitionSize_def)
  have 5: "soundWaves exampleConsts exampleWaveBank (waveBanks sb) 0x00050007 1 0x08 (sounds sb ! 1)"
    using r a [rule_format, of 1] by (simp add: kSoundDefinitionSize_def)
  have 6: "soundWaves exampleConsts exampleWaveBank (waveBanks sb) 0x84 1 0 (sounds sb ! 2)"
    using r a [rule_format, of 2] by (simp add: kSoundDefinitionSize_def)
  from e v 1 2 3 4 5 6 show ?thesis
    by (intro exI [of _ sb] conjI)
qed

text \<open>
  C7. When bit 0 of the header's flag field is set (no cue names), no cue of a decoded
  sound bank has a name and no cue is registered in the name lookup, whatever the name
  offsets of the cue records are. The name is then neither sought nor read: on a bank
  with that flag, reading a cue record is the reading of its variations alone, started
  right after the 20 bytes of the record, in which the name offset at bytes 4 to 7 of
  the record does not occur.
\<close>

theorem no_cue_names_flag:
  assumes "XACTSoundBank_Binary C buf = Inr sb" and "u16le buf 24 AND 1 \<noteq> 0"
  shows "length (cues sb) = unat (u16le buf 30) \<and>
    (\<forall>j < unat (u16le buf 30). Cue.name (cues sb ! j) = []) \<and>
    cueMap sb = Map.empty \<and>
    (\<forall>xsbFlags offset i sb0 p.
       xsbFlags AND kXSBNoCueNames \<noteq> 0 \<and> unat offset + i * kCueDefinitionSize + 20 \<le> length buf \<longrightarrow>
       readCue C buf xsbFlags offset i sb0 p =
         (if u32le buf (unat offset + i * kCueDefinitionSize + 8) \<noteq> 0xFFFFFFFF
          then bindR (readCueVarations C buf (cues sb0 ! i)
                        (u32le buf (unat offset + i * kCueDefinitionSize + 8))) (\<lambda>cue.
                 returnR (sb0\<lparr>cues := (cues sb0)[i := cue]\<rparr>))
          else if u16le buf (unat offset + i * kCueDefinitionSize + 2) \<noteq> 0xFFFF
          then returnR
                 (sb0\<lparr>cues := (cues sb0)[i := (cues sb0 ! i)
                    \<lparr>Cue.variationSelectMethod := Some (kSelectMethodOrdered C),
                     variations :=
                       modifyBack
                         (\<lambda>v. v\<lparr>soundIndex :=
                                  unat (u16le buf (unat offset + i * kCueDefinitionSize + 2)),
                                 CueVariation.weightMin := kWeightMinimum C,
                                 CueVariation.weightMax := kWeightMaximum C\<rparr>)
                         (resize newCueVariation 1 (variations (cues sb0 ! i)))\<rparr>]\<rparr>)
          else returnR sb0) (unat offset + i * kCueDefinitionSize + 20))"
proof -
  note c = constructor_cues [OF assms(1)]
  from c have 1: "length (cues sb) = unat (u16le buf 30)" by simp
  from c assms(2) have 2: "\<forall>j < unat (u16le buf 30). Cue.name (cues sb ! j) = []"
    by (simp add: cueAsRecord_def noCueNames_ucast)
  from c assms(2) have 3: "cueMap sb = Map.empty" by simp
  from 1 2 3 show ?thesis
    by (simp add: readCue_noCueNames)
qed

theorem no_cue_names_flag_witness:
  "u16le exampleNoCueNames 24 AND 1 \<noteq> 0 \<and>
   u32le exampleNoCueNames (56 + 4) = 0x1000 \<and>
   length exampleNoCueNames = 76 \<and>
   (\<exists>sb. XACTSoundBank_Binary exampleConsts exampleNoCueNames = Inr sb \<and>
      length (cues sb) = 1 \<and> Cue.name (cues sb ! 0) = [] \<and> cueMap sb = Map.empty) \<and>
   kXSBNoCueNames AND kXSBNoCueNames \<noteq> 0 \<and>
   readCue exampleConsts exampleNoCueNames kXSBNoCueNames 56 0
     (newSoundBank\<lparr>cues := [newCue]\<rparr>) 0 =
   Inr (newSoundBank\<lparr>cues := [\<lparr>Cue.name = [], Cue.variationSelectMethod = Some 0,
          variations = [\<lparr>soundIndex = 5, CueVariation.weightMin = 0,
                         CueVariation.weightMax = 255\<rparr>]\<rparr>]\<rparr>, 76) \<and>
   XACTSoundBank_Binary exampleConsts (exampleNoCueNames[24 := 0]) = Inl SeekError"
proof -
  have f: "u16le exampleNoCueNames 24 AND 1 \<noteq> 0"
    by (simp add: exampleNoCueNames_def u16le_def)
  have o: "u32le exampleNoCueNames (56 + 4) = 0x1000"
    by (simp add: exampleNoCueNames_def u32le_def)
  have l: "length exampleNoCueNames = 76"
    by (simp add: exampleNoCueNames_def)
  have n: "unat (u16le exampleNoCueNames 30) = 1"
    by (simp add: exampleNoCueNames_def u16le_def)
  from exampleNoCueNames_decodes obtain sb where
    e: "XACTSoundBank_Binary exampleConsts exampleNoCueNames = Inr sb"
    by (cases "XACTSoundBank_Binary exampleConsts exampleNoCueNames") auto
  from no_cue_names_flag [OF e f] n have
    "length (cues sb) = 1 \<and> Cue.name (cues sb ! 0) = [] \<and> cueMap sb = Map.empty"
    by simp
  moreover have k: "kXSBNoCueNames AND kXSBNoCueNames \<noteq> 0"
    by (simp add: kXSBNoCueNames_def)
  moreover have
    "readCue exampleConsts exampleNoCueNames kXSBNoCueNames 56 0
       (newSoundBank\<lparr>cues := [newCue]\<rparr>) 0 =
     Inr (newSoundBank\<lparr>cues := [\<lparr>Cue.name = [], Cue.variationSelectMethod = Some 0,
          variations = [\<lparr>soundIndex = 5, CueVariation.weightMin = 0,
                         CueVariation.weightMax = 255\<rparr>]\<rparr>]\<rparr>, 76)"
  proof -
    have r: "u32le exampleNoCueNames 64 = 0xFFFFFFFF" "u16le exampleNoCueNames 58 = 5"
      by (simp_all add: exampleNoCueNames_def u32le_def u16le_def)
    from no_cue_names_flag [OF e f] k l have
      "readCue exampleConsts exampleNoCueNames kXSBNoCueNames 56 0
         (newSoundBank\<lparr>cues := [newCue]\<rparr>) 0 =
       (if u32le exampleNoCueNames (unat (56 :: uint32) + 0 * kCueDefinitionSize + 8) \<noteq> 0xFFFFFFFF
          then bindR (readCueVarations exampleConsts exampleNoCueNames
                        (cues (newSoundBank\<lparr>cues := [newCue]\<rparr>) ! 0)
                        (u32le exampleNoCueNames (unat (56 :: uint32) + 0 * kCueDefinitionSize + 8)))
                 (\<lambda>cue. returnR (newSoundBank\<lparr>cues := [newCue]\<rparr>
                    \<lparr>cues := (cues (newSoundBank\<lparr>cues := [newCue]\<rparr>))[0 := cue]\<rparr>))
          else if u16le exampleNoCueNames (unat (56 :: uint32) + 0 * kCueDefinitionSize + 2) \<noteq> 0xFFFF
          then returnR
                 (newSoundBank\<lparr>cues := [newCue]\<rparr>
                   \<lparr>cues := (cues (newSoundBank\<lparr>cues := [newCue]\<rparr>))
                    [0 := (cues (newSoundBank\<lparr>cues := [newCue]\<rparr>) ! 0)
                    \<lparr>Cue.variationSelectMethod := Some (kSelectMethodOrdered exampleConsts),
                     variations :=
                       modifyBack
                         (\<lambda>v. v\<lparr>soundIndex :=
                                  unat (u16le exampleNoCueNames
                                          (unat (56 :: uint32) + 0 * kCueDefinitionSize + 2)),
                                 CueVariation.weightMin := kWeightMinimum exampleConsts,
                                 CueVariation.weightMax := kWeightMaximum exampleConsts\<rparr>)
                         (resize newCueVariation 1
                            (variations (cues (newSoundBank\<lparr>cues := [newCue]\<rparr>) ! 0)))\<rparr>]\<rparr>)
          else returnR (newSoundBank\<lparr>cues := [newCue]\<rparr>))
         (unat (56 :: uint32) + 0 * kCueDefinitionSize + 20)"
      by (simp add: kCueDefinitionSize_def)
    with r show ?thesis
      by (simp add: returnR_def newCue_def newCueVariation_def resize_def modifyBack_def
          exampleConsts_def kCueDefinitionSize_def)
  qed
  ultimately show ?thesis
    using f o l e exampleNoCueNames_named
    by (intro conjI exI [of _ sb]) simp_all
qed

text \<open>
  C8. A cue of a decoded sound bank whose record has the entry offset \<open>0xFFFFFFFF\<close> and a
  direct sound index other than \<open>0xFFFF\<close> has exactly one variation: its sound index is
  the direct sound index of the record, its weights are \<open>kWeightMinimum\<close> and
  \<open>kWeightMaximum\<close>, and the selection method of the cue is ordered. When the record has
  both sentinels, the cue has no variation and no selection method.
\<close>

theorem cue_direct_sound_index:
  assumes "XACTSoundBank_Binary C buf = Inr sb" and "j < unat (u16le buf 30)"
    and "u32le buf (56 + j * kCueDefinitionSize + 8) = 0xFFFFFFFF"
  shows "j < length (cues sb) \<and>
    (u16le buf (56 + j * kCueDefinitionSize + 2) \<noteq> 0xFFFF \<longrightarrow>
       variations (cues sb ! j) =
         [\<lparr>soundIndex = unat (u16le buf (56 + j * kCueDefinitionSize + 2)),
           CueVariation.weightMin = kWeightMinimum C,
           CueVariation.weightMax = kWeightMaximum C\<rparr>] \<and>
       Cue.variationSelectMethod (cues sb ! j) = Some (kSelectMethodOrdered C)) \<and>
    (u16le buf (56 + j * kCueDefinitionSize + 2) = 0xFFFF \<longrightarrow>
       variations (cues sb ! j) = [] \<and> Cue.variationSelectMethod (cues sb ! j) = None)"
proof -
  note c = constructor_cues [OF assms(1)]
  from c assms(2) have 1: "j < length (cues sb)" by simp
  from c assms(2) have
    "cueAsRecord C buf (ucast (u16le buf 24)) (56 + j * kCueDefinitionSize) (cues sb ! j)"
    by simp
  with assms(3) 1 show ?thesis
    by (simp add: cueAsRecord_def)
qed

theorem cue_direct_sound_index_witness:
  "\<exists>sb. XACTSoundBank_Binary exampleConsts exampleDirectCues = Inr sb \<and>
     unat (u16le exampleDirectCues 30) = 2 \<and>
     u32le exampleDirectCues (56 + 0 * kCueDefinitionSize + 8) = 0xFFFFFFFF \<and>
     u16le exampleDirectCues (56 + 0 * kCueDefinitionSize + 2) = 5 \<and>
     variations (cues sb ! 0) =
       [\<lparr>soundIndex = 5, CueVariation.weightMin = 0, CueVariation.weightMax = 255\<rparr>] \<and>
     Cue.variationSelectMethod (cues sb ! 0) = Some 0 \<and>
     u32le exampleDirectCues (56 + 1 * kCueDefinitionSize + 8) = 0xFFFFFFFF \<and>
     u16le exampleDirectCues (56 + 1 * kCueDefinitionSize + 2) = 0xFFFF \<and>
     variations (cues sb ! 1) = [] \<and>
     Cue.variationSelectMethod (cues sb ! 1) = None"
proof -
  from exampleDirectCues_decodes obtain sb where
    e: "XACTSoundBank_Binary exampleConsts exampleDirectCues = Inr sb"
    by (cases "XACTSoundBank_Binary exampleConsts exampleDirectCues") auto
  have n: "unat (u16le exampleDirectCues 30) = 2"
    by (simp add: exampleDirectCues_def u16le_def)
  have a: "u32le exampleDirectCues (56 + 0 * kCueDefinitionSize + 8) = 0xFFFFFFFF"
    "u32le exampleDirectCues (56 + 1 * kCueDefinitionSize + 8) = 0xFFFFFFFF"
    by (simp_all add: exampleDirectCues_def u32le_def kCueDefinitionSize_def)
  have b: "u16le exampleDirectCues (56 + 0 * kCueDefinitionSize + 2) = 5"
    "u16le exampleDirectCues (56 + 1 * kCueDefinitionSize + 2) = 0xFFFF"
    by (simp_all add: exampleDirectCues_def u16le_def kCueDefinitionSize_def)
  have 0: "variations (cues sb ! 0) =
       [\<lparr>soundIndex = 5, CueVariation.weightMin = 0, CueVariation.weightMax = 255\<rparr>] \<and>
     Cue.variationSelectMethod (cues sb ! 0) = Some 0"
    using cue_direct_sound_index [OF e, of 0] n a(1) b(1)
    by (simp add: exampleConsts_def)
  have 1: "variations (cues sb ! 1) = [] \<and> Cue.variationSelectMethod (cues sb ! 1) = None"
    using cue_direct_sound_index [OF e, of 1] n a(2) b(2)
    by simp
  from e n a b 0 1 show ?thesis
    by (intro exI [of _ sb] conjI) simp_all
qed

end
